theory Spec2Isabelle
  imports Complex_Main "HOL-Library.Word" "HOL-Library.Sublist" "HOL-Library.AList"
begin

section \<open>Content classifier (main.go, isTextFile)\<close>

type_synonym byte = "8 word"

text \<open>
  Go's standard-library function \<^verbatim>\<open>unicode/utf8.Valid\<close>, which \<^verbatim>\<open>isTextFile\<close> calls.
  It is not code of the repository; it is written here from the tables of the Go
  library (\<^verbatim>\<open>first\<close> and \<^verbatim>\<open>acceptRanges\<close>): a lead byte fixes the length of the
  sequence and the range of the second byte, every further byte is a continuation byte
  \<^verbatim>\<open>0x80..0xBF\<close>; overlong forms, surrogates and code points above \<^verbatim>\<open>U+10FFFF\<close> are
  invalid.
\<close>

definition inRange :: "byte \<Rightarrow> byte \<Rightarrow> byte \<Rightarrow> bool" where
  "inRange lo hi b = (lo \<le> b \<and> b \<le> hi)"

fun utf8_Valid :: "byte list \<Rightarrow> bool" where
  "utf8_Valid [] = True"
| "utf8_Valid (b0 # bs) =
     (if b0 < 0x80 then utf8_Valid bs
      else if inRange 0xC2 0xDF b0 then
        (case bs of
           b1 # r \<Rightarrow> inRange 0x80 0xBF b1 \<and> utf8_Valid r
         | _ \<Rightarrow> False)
      else if inRange 0xE0 0xEF b0 then
        (case bs of
           b1 # b2 # r \<Rightarrow>
             inRange (if b0 = 0xE0 then 0xA0 else 0x80) (if b0 = 0xED then 0x9F else 0xBF) b1 \<and>
             inRange 0x80 0xBF b2 \<and> utf8_Valid r
         | _ \<Rightarrow> False)
      else if inRange 0xF0 0xF4 b0 then
        (case bs of
           b1 # b2 # b3 # r \<Rightarrow>
             inRange (if b0 = 0xF0 then 0x90 else 0x80) (if b0 = 0xF4 then 0x8F else 0xBF) b1 \<and>
             inRange 0x80 0xBF b2 \<and> inRange 0x80 0xBF b3 \<and> utf8_Valid r
         | _ \<Rightarrow> False)
      else False)"

text \<open>
  The counting loop of \<^verbatim>\<open>isTextFile\<close>:
  \<^verbatim>\<open>for i, b := range content { if i > 8192 { break }; ... }\<close>.
  The index \<open>i\<close> runs from 0; the loop stops at the first index above 8192, so the
  bytes at the indices \<open>0..8192\<close> are counted.
\<close>

fun countLoop :: "nat \<Rightarrow> byte list \<Rightarrow> nat \<times> nat \<Rightarrow> nat \<times> nat" where
  "countLoop i [] (nullBytes, controlChars) = (nullBytes, controlChars)"
| "countLoop i (b # bs) (nullBytes, controlChars) =
     (if i > 8192 then (nullBytes, controlChars)
      else countLoop (i + 1) bs
             (if b = 0 then nullBytes + 1 else nullBytes,
              if b < 32 \<and> b \<noteq> 9 \<and> b \<noteq> 10 \<and> b \<noteq> 13 then controlChars + 1 else controlChars))"

text \<open>
  \<^verbatim>\<open>isTextFile\<close>. The two quotients are \<^verbatim>\<open>float64\<close> divisions in the source, compared
  with the constants 0.01 and 0.05. They are taken here as exact quotients of reals:
  both operands are integers far below \<open>2^53\<close>, the division is correctly rounded and
  rounding is monotone, so for any buffer that fits in memory the \<^verbatim>\<open>float64\<close>
  comparison and the exact one agree.
\<close>

definition isTextFile :: "byte list \<Rightarrow> bool" where
  "isTextFile content =
     (if length content = 0 then True
      else if \<not> utf8_Valid content then False
      else
        (case countLoop 0 content (0, 0) of
           (nullBytes, controlChars) \<Rightarrow>
             let contentLen = length content in
             if contentLen > 100 then
               if real nullBytes / real contentLen > 0.01 then False
               else if real controlChars / real contentLen > 0.05 then False
               else True
             else True))"

text \<open>
  The classifier as the specification words it: the zero bytes and the control bytes
  (tab, newline and carriage return excluded) are counted over at most the first 8192
  bytes, and the two ratios are taken over that inspected window.
\<close>

definition isControl :: "byte \<Rightarrow> bool" where
  "isControl b = (b < 32 \<and> b \<noteq> 9 \<and> b \<noteq> 10 \<and> b \<noteq> 13)"

definition spec_isTextFile :: "byte list \<Rightarrow> bool" where
  "spec_isTextFile content =
     (if content = [] then True
      else if \<not> utf8_Valid content then False
      else
        let window = take 8192 content;
            zeros = length (filter (\<lambda>b. b = 0) window);
            controls = length (filter isControl window)
        in if length content > 100 then
             if real zeros / real (length window) > 1 / 100 then False
             else if real controls / real (length window) > 5 / 100 then False
             else True
           else True)"


section \<open>Strings and lexical paths (Go: strings, path/filepath on a slash-separated host)\<close>

text \<open>
  The functions of this section are Go standard-library functions that the handlers
  call; they are written from the library's documented behaviour on a host whose path
  separator is the slash. A path is a \<open>string\<close>, a list of bytes.
\<close>

definition HasPrefix :: "string \<Rightarrow> string \<Rightarrow> bool" where
  \<comment> \<open>\<^verbatim>\<open>strings.HasPrefix(s, prefix)\<close>\<close>
  "HasPrefix s pre = prefix pre s"

fun Contains :: "string \<Rightarrow> string \<Rightarrow> bool" where
  \<comment> \<open>\<^verbatim>\<open>strings.Contains(s, substr)\<close>\<close>
  "Contains [] sub = (sub = [])"
| "Contains (c # cs) sub = (prefix sub (c # cs) \<or> Contains cs sub)"

definition ReplaceAll_backslash :: "string \<Rightarrow> string" where
  \<comment> \<open>\<^verbatim>\<open>strings.ReplaceAll(s, "\\", "/")\<close>\<close>
  "ReplaceAll_backslash s = map (\<lambda>c. if c = CHR 0x5C then CHR ''/'' else c) s"

fun splitSlash :: "string \<Rightarrow> string list" where
  \<comment> \<open>the path elements: the pieces between the separators\<close>
  "splitSlash [] = [[]]"
| "splitSlash (c # cs) =
     (if c = CHR ''/'' then [] # splitSlash cs
      else (case splitSlash cs of [] \<Rightarrow> [[c]] | e # es \<Rightarrow> (c # e) # es))"

fun joinSlash :: "string list \<Rightarrow> string" where
  \<comment> \<open>\<^verbatim>\<open>strings.Join(elems, "/")\<close>\<close>
  "joinSlash [] = []"
| "joinSlash [e] = e"
| "joinSlash (e # es) = e @ CHR ''/'' # joinSlash es"

definition isRooted :: "string \<Rightarrow> bool" where
  "isRooted path = (path \<noteq> [] \<and> hd path = CHR ''/'')"

text \<open>
  \<^verbatim>\<open>filepath.Clean\<close> reads the path element by element and keeps the elements of the
  result on a stack (\<open>out\<close>, top first): an empty element and \<open>.\<close> are dropped; \<open>..\<close>
  removes the element before it when there is one that is not itself \<open>..\<close>, is
  dropped at the root of a rooted path, and is kept at the start of a relative path;
  any other element is pushed.
\<close>

definition cleanStep :: "bool \<Rightarrow> string list \<Rightarrow> string \<Rightarrow> string list" where
  "cleanStep rooted out e =
     (if e = [] \<or> e = ''.'' then out
      else if e = ''..'' then
        (case out of
           [] \<Rightarrow> if rooted then [] else [''..'']
         | t # ts \<Rightarrow> if t = ''..'' then ''..'' # out else ts)
      else e # out)"

definition cleanElems :: "string \<Rightarrow> string list" where
  "cleanElems path = rev (foldl (cleanStep (isRooted path)) [] (splitSlash path))"

definition Clean :: "string \<Rightarrow> string" where
  \<comment> \<open>\<^verbatim>\<open>filepath.Clean(path)\<close>\<close>
  "Clean path =
     (if path = [] then ''.''
      else if isRooted path then CHR ''/'' # joinSlash (cleanElems path)
      else if cleanElems path = [] then ''.''
      else joinSlash (cleanElems path))"

fun Join :: "string list \<Rightarrow> string" where
  \<comment> \<open>\<^verbatim>\<open>filepath.Join(elem...)\<close>: leading empty elements are skipped, the rest is
      joined with separators and cleaned\<close>
  "Join [] = []"
| "Join (e # es) = (if e = [] then Join es else Clean (joinSlash (e # es)))"

definition Base :: "string \<Rightarrow> string" where
  \<comment> \<open>\<^verbatim>\<open>filepath.Base(path)\<close>\<close>
  "Base path =
     (if path = [] then ''.''
      else
        let p = rev (dropWhile (\<lambda>c. c = CHR ''/'') (rev path));
            b = rev (takeWhile (\<lambda>c. c \<noteq> CHR ''/'') (rev p))
        in if b = [] then ''/'' else b)"

definition Dir :: "string \<Rightarrow> string" where
  \<comment> \<open>\<^verbatim>\<open>filepath.Dir(path)\<close>: everything up to the last separator, cleaned\<close>
  "Dir path = Clean (rev (dropWhile (\<lambda>c. c \<noteq> CHR ''/'') (rev path)))"

text \<open>
  \<^verbatim>\<open>filepath.Rel(base, target)\<close> for a target that the directory walk built below
  \<open>base\<close>: the elements of the target after those of the base, or \<open>.\<close> for the base
  itself.
\<close>

definition Rel :: "string list \<Rightarrow> string" where
  "Rel elems = (if elems = [] then ''.'' else joinSlash elems)"

fun showNat :: "nat \<Rightarrow> string" where
  \<comment> \<open>\<^verbatim>\<open>%d\<close> of a non-negative integer\<close>
  "showNat n =
     (if n < 10 then [''0123456789'' ! n]
      else showNat (n div 10) @ [''0123456789'' ! (n mod 10)])"

definition showInt :: "int \<Rightarrow> string" where
  "showInt i = (if i < 0 then CHR ''-'' # showNat (nat (- i)) else showNat (nat i))"

subsection \<open>Identifiers (github.com/google/uuid, Parse)\<close>

text \<open>
  \<^verbatim>\<open>uuid.Parse\<close> is a library function. It accepts the 36-byte form
  \<^verbatim>\<open>xxxxxxxx-xxxx-xxxx-xxxx-xxxxxxxxxxxx\<close>, the same with the prefix \<^verbatim>\<open>urn:uuid:\<close> (in
  any case), the 38-byte form of which only the middle 36 bytes are examined, and 32
  hexadecimal digits. \<open>uuid_Parse s\<close> holds when \<^verbatim>\<open>uuid.Parse(s)\<close> returns no error.
\<close>

definition isHexDigit :: "char \<Rightarrow> bool" where
  "isHexDigit c = (c \<in> set ''0123456789abcdefABCDEF'')"

definition uuidBody :: "string \<Rightarrow> bool" where
  "uuidBody s =
     (s ! 8 = CHR ''-'' \<and> s ! 13 = CHR ''-'' \<and> s ! 18 = CHR ''-'' \<and> s ! 23 = CHR ''-'' \<and>
      list_all (\<lambda>x. isHexDigit (s ! x) \<and> isHexDigit (s ! (x + 1)))
        [0, 2, 4, 6, 9, 11, 14, 16, 19, 21, 24, 26, 28, 30, 32, 34])"

definition toLowerASCII :: "char \<Rightarrow> char" where
  "toLowerASCII c =
     (case map_of (zip ''ABCDEFGHIJKLMNOPQRSTUVWXYZ'' ''abcdefghijklmnopqrstuvwxyz'') c of
        None \<Rightarrow> c
      | Some l \<Rightarrow> l)"

definition uuid_Parse :: "string \<Rightarrow> bool" where
  "uuid_Parse s =
     (if length s = 36 then uuidBody s
      else if length s = 36 + 9 then
        map toLowerASCII (take 9 s) = ''urn:uuid:'' \<and> uuidBody (drop 9 s)
      else if length s = 36 + 2 then uuidBody (drop 1 s)
      else if length s = 32 then
        list_all (\<lambda>i. isHexDigit (s ! (i * 2)) \<and> isHexDigit (s ! (i * 2 + 1))) [0..<16]
      else False)"


section \<open>The file system\<close>

text \<open>
  The storage directory is the only shared state. It is modelled as a tree: a regular
  file holds its bytes, a directory holds its entries by name. A path is resolved
  lexically, element by element, as \<^verbatim>\<open>filepath.Clean\<close> reads it: a relative path from
  the working directory (the root of the tree), a rooted path from the entry \<open>/\<close>.
  There are no symbolic links, no permissions and no modification times in the model;
  an operation fails only for the reasons the tree gives (a missing entry, a regular
  file where a directory is needed, a directory where a file is needed). The entries of
  a directory are an association list: a lookup takes the first entry of a name, and
  the operations never add a second entry of a name.
\<close>

datatype node = FileNode "byte list" | DirNode "(string \<times> node) list"

datatype errno = ENOENT | ENOTDIR | EISDIR

definition pathKey :: "string \<Rightarrow> string list" where
  "pathKey path = (if isRooted path then ''/'' # cleanElems path else cleanElems path)"

fun stat :: "node \<Rightarrow> string list \<Rightarrow> errno + node" where
  "stat t [] = Inr t"
| "stat (FileNode b) (c # cs) = Inl ENOTDIR"
| "stat (DirNode es) (c # cs) =
     (case map_of es c of None \<Rightarrow> Inl ENOENT | Some t \<Rightarrow> stat t cs)"

fun mkdirAll :: "node \<Rightarrow> string list \<Rightarrow> errno + node" where
  "mkdirAll (FileNode b) k = Inl ENOTDIR"
| "mkdirAll (DirNode es) [] = Inr (DirNode es)"
| "mkdirAll (DirNode es) (c # cs) =
     (case mkdirAll (case map_of es c of None \<Rightarrow> DirNode [] | Some t \<Rightarrow> t) cs of
        Inl e \<Rightarrow> Inl e
      | Inr t' \<Rightarrow> Inr (DirNode (AList.update c t' es)))"

text \<open>
  \<open>setAt t k v\<close> replaces (\<open>Some\<close>) or deletes (\<open>None\<close>) the entry at \<open>k\<close> in the
  directory that holds it; the tree is unchanged when that directory does not exist.
\<close>

fun setAt :: "node \<Rightarrow> string list \<Rightarrow> node option \<Rightarrow> node" where
  "setAt t [] v = (case v of None \<Rightarrow> t | Some n \<Rightarrow> n)"
| "setAt (FileNode b) (c # cs) v = FileNode b"
| "setAt (DirNode es) (c # cs) v =
     (if cs = [] then
        DirNode (case v of None \<Rightarrow> AList.delete c es | Some n \<Rightarrow> AList.update c n es)
      else
        (case map_of es c of
           None \<Rightarrow> DirNode es
         | Some t \<Rightarrow> DirNode (AList.update c (setAt t cs v) es)))"

definition IsDir :: "node \<Rightarrow> bool" where
  "IsDir t = (case t of DirNode es \<Rightarrow> True | FileNode b \<Rightarrow> False)"

definition Size :: "node \<Rightarrow> nat" where
  "Size t = (case t of FileNode b \<Rightarrow> length b | DirNode es \<Rightarrow> 0)"

definition Stat :: "node \<Rightarrow> string \<Rightarrow> errno + node" where
  \<comment> \<open>\<^verbatim>\<open>os.Stat(path)\<close>\<close>
  "Stat fs path = stat fs (pathKey path)"

definition MkdirAll :: "node \<Rightarrow> string \<Rightarrow> errno + node" where
  \<comment> \<open>\<^verbatim>\<open>os.MkdirAll(path, perm)\<close>\<close>
  "MkdirAll fs path = mkdirAll fs (pathKey path)"

definition Create :: "node \<Rightarrow> string \<Rightarrow> errno + node" where
  \<comment> \<open>\<^verbatim>\<open>os.Create(path)\<close>: a new empty file, or an existing file truncated\<close>
  "Create fs path =
     (let k = pathKey path in
      case stat fs k of
        Inr (DirNode es) \<Rightarrow> Inl EISDIR
      | Inr (FileNode b) \<Rightarrow> Inr (setAt fs k (Some (FileNode [])))
      | Inl e \<Rightarrow>
          if e = ENOENT \<and> k \<noteq> [] \<and> (case stat fs (butlast k) of Inr t \<Rightarrow> IsDir t | Inl e' \<Rightarrow> False)
          then Inr (setAt fs k (Some (FileNode [])))
          else Inl e)"

definition WriteFile :: "node \<Rightarrow> string \<Rightarrow> byte list \<Rightarrow> node" where
  \<comment> \<open>the bytes that \<^verbatim>\<open>io.Copy(dst, src)\<close> has written to the file opened at \<open>path\<close>\<close>
  "WriteFile fs path content = setAt fs (pathKey path) (Some (FileNode content))"

definition Remove :: "node \<Rightarrow> string \<Rightarrow> node" where
  \<comment> \<open>\<^verbatim>\<open>os.Remove(path)\<close> with its error dropped: a file or an empty directory goes\<close>
  "Remove fs path =
     (let k = pathKey path in
      case stat fs k of
        Inr (FileNode b) \<Rightarrow> setAt fs k None
      | Inr (DirNode es) \<Rightarrow> if es = [] then setAt fs k None else fs
      | Inl e \<Rightarrow> fs)"

definition RemoveAll :: "node \<Rightarrow> string \<Rightarrow> node" where
  \<comment> \<open>\<^verbatim>\<open>os.RemoveAll(path)\<close> with its error dropped; the working directory itself
      (\<open>.\<close>) is refused by the library\<close>
  "RemoveAll fs path = (if pathKey path = [] then fs else setAt fs (pathKey path) None)"

definition Open :: "node \<Rightarrow> string \<Rightarrow> errno + byte list" where
  \<comment> \<open>\<^verbatim>\<open>os.Open(path)\<close> followed by reading the file to its end; also \<^verbatim>\<open>os.ReadFile\<close>\<close>
  "Open fs path =
     (case stat fs (pathKey path) of
        Inl e \<Rightarrow> Inl e
      | Inr (DirNode es) \<Rightarrow> Inl EISDIR
      | Inr (FileNode b) \<Rightarrow> Inr b)"

text \<open>
  \<^verbatim>\<open>filepath.WalkDir\<close> and \<^verbatim>\<open>filepath.Walk\<close> visit the root, then the entries of each
  directory in the order of their names, depth first. An entry is given here by its
  path elements below the root.
\<close>

fun strLess :: "string \<Rightarrow> string \<Rightarrow> bool" where
  "strLess [] [] = False"
| "strLess [] (y # ys) = True"
| "strLess (x # xs) [] = False"
| "strLess (x # xs) (y # ys) =
     ((of_char x :: nat) < of_char y \<or> (x = y \<and> strLess xs ys))"

fun insertEntry :: "string \<times> 'a \<Rightarrow> (string \<times> 'a) list \<Rightarrow> (string \<times> 'a) list" where
  "insertEntry e [] = [e]"
| "insertEntry e (d # ds) = (if strLess (fst d) (fst e) then d # insertEntry e ds else e # d # ds)"

fun sortEntries :: "(string \<times> 'a) list \<Rightarrow> (string \<times> 'a) list" where
  "sortEntries [] = []"
| "sortEntries (e # es) = insertEntry e (sortEntries es)"


lemma set_insertEntry [simp]: "set (insertEntry e es) = insert e (set es)"
  by (induction es) auto

lemma set_sortEntries [simp]: "set (sortEntries es) = set es"
  by (induction es) auto

fun walkTree :: "string list \<Rightarrow> node \<Rightarrow> (string list \<times> node) list" where
  "walkTree rel (FileNode b) = [(rel, FileNode b)]"
| "walkTree rel (DirNode es) =
     (rel, DirNode es) # concat (map (\<lambda>(name, t). walkTree (rel @ [name]) t) (sortEntries es))"


section \<open>Requests and responses\<close>

text \<open>
  One part of a multipart upload: its file name, its bytes, and what the environment
  does to it: \<open>OpenErr\<close> when \<^verbatim>\<open>fileHeader.Open()\<close> fails, \<open>CopyErr = Some n\<close> when
  \<^verbatim>\<open>io.Copy\<close> fails after \<open>n\<close> bytes have been written.
\<close>

record upload =
  Filename :: string
  Content :: "byte list"
  OpenErr :: bool
  CopyErr :: "nat option"

text \<open>
  An upload request: \<open>ParseErr\<close> when \<^verbatim>\<open>r.ParseMultipartForm\<close> fails (a body above
  \<^verbatim>\<open>MaxUploadSize\<close>, or no multipart form), \<open>Form\<close> is \<^verbatim>\<open>r.FormValue\<close> (the empty string
  for an absent field), \<open>MultipartFile\<close> is \<^verbatim>\<open>r.MultipartForm.File\<close> in the order in
  which a \<^verbatim>\<open>range\<close> over it runs.
\<close>

record request =
  ParseErr :: bool
  Form :: "string \<Rightarrow> string"
  MultipartFile :: "(string \<times> upload list) list"

record StorageServer =
  baseStorageDir :: string

text \<open>
  What a handler writes to its \<^verbatim>\<open>http.ResponseWriter\<close>:
  \<^item> \<open>ErrorResponse code message\<close>: \<^verbatim>\<open>respondWithError\<close>, the JSON object
    \<^verbatim>\<open>{"success": false, "error": message}\<close> with the status \<open>code\<close>;
  \<^item> \<open>StoreResponse success message\<close>: the JSON of the struct \<^verbatim>\<open>StoreResponse\<close>;
  \<^item> \<open>FileResponse filename length body\<close>: an octet stream with the attachment name and
    the content length of its headers;
  \<^item> \<open>TextContent file_path size content\<close> and \<open>BinaryContent file_path size download_url\<close>:
    the JSON object of \<^verbatim>\<open>getFileContent\<close> for a text and for a binary file (the field
    \<^verbatim>\<open>modified\<close> is left out: the model has no times);
  \<^item> \<open>ZipResponse filename entries\<close>: the archive, its entries in the order written,
    each with its name and bytes;
  \<^item> \<open>HttpError code message\<close> and \<open>PlainResponse code text\<close>: \<^verbatim>\<open>http.Error\<close> and a plain
    text body, in the handlers of the second source file;
  \<^item> \<open>Panic\<close>: the handler dereferences a nil \<^verbatim>\<open>fileInfo\<close>; nothing is written.
\<close>

datatype response =
    ErrorResponse nat string
  | StoreResponse bool string
  | FileResponse string nat "byte list"
  | TextContent string nat "byte list"
  | BinaryContent string nat string
  | ZipResponse string "(string \<times> byte list) list"
  | HttpError nat string
  | PlainResponse nat string
  | Panic

text \<open>What the loop of \<^verbatim>\<open>storeFiles\<close> logs for one file.\<close>

datatype outcome =
    Stored
  | OpenError
  | InvalidFilename
  | InvalidPath
  | MkdirError
  | CreateError
  | WriteError


section \<open>The storage server (main.go)\<close>

text \<open>
  The body of the loop of \<^verbatim>\<open>storeFiles\<close> for one \<^verbatim>\<open>fileHeader\<close>. The state is
  \<^verbatim>\<open>storedFiles\<close>, \<^verbatim>\<open>totalSize\<close> and the file system; every \<^verbatim>\<open>continue\<close> returns the
  state as it is at that point, with what was logged.
\<close>

definition storeOne ::
  "string \<Rightarrow> (string \<Rightarrow> string) \<Rightarrow> string list \<times> int \<times> node \<Rightarrow> upload
     \<Rightarrow> outcome \<times> (string list \<times> int \<times> node)" where
  "storeOne storageDir form st fileHeader =
     (case st of (storedFiles, totalSize, fs) \<Rightarrow>
      if OpenErr fileHeader then (OpenError, st)
      else
        let fileName = Base (Filename fileHeader) in
        if fileName = [] \<or> fileName = ''.'' \<or> fileName = ''..'' then (InvalidFilename, st)
        else
          let relativePath0 = form (''path_'' @ Filename fileHeader);
              relativePath1 = (if relativePath0 = [] then fileName else relativePath0);
              relativePath = Clean relativePath1
          in
          if HasPrefix relativePath ''..'' then (InvalidPath, st)
          else
            let fullPath = Join [storageDir, relativePath] in
            (case MkdirAll fs (Dir fullPath) of
               Inl e \<Rightarrow> (MkdirError, st)
             | Inr fs1 \<Rightarrow>
                 (case Create fs1 fullPath of
                    Inl e \<Rightarrow> (CreateError, (storedFiles, totalSize, fs1))
                  | Inr fs2 \<Rightarrow>
                      (case CopyErr fileHeader of
                         Some n \<Rightarrow>
                           (WriteError,
                            (storedFiles, totalSize,
                             Remove (WriteFile fs2 fullPath (take n (Content fileHeader))) fullPath))
                       | None \<Rightarrow>
                           (Stored,
                            (storedFiles @ [relativePath],
                             totalSize + int (length (Content fileHeader)),
                             WriteFile fs2 fullPath (Content fileHeader)))))))"

fun storeLoop ::
  "string \<Rightarrow> (string \<Rightarrow> string) \<Rightarrow> upload list \<Rightarrow> string list \<times> int \<times> node
     \<Rightarrow> outcome list \<times> (string list \<times> int \<times> node)" where
  "storeLoop storageDir form [] st = ([], st)"
| "storeLoop storageDir form (fileHeader # files) st =
     (case storeOne storageDir form st fileHeader of
        (oc, st') \<Rightarrow>
          (case storeLoop storageDir form files st' of
             (ocs, st'') \<Rightarrow> (oc # ocs, st'')))"

definition formFiles :: "request \<Rightarrow> upload list" where
  \<comment> \<open>\<^verbatim>\<open>r.MultipartForm.File["files"]\<close>\<close>
  "formFiles r = (case map_of (MultipartFile r) ''files'' of None \<Rightarrow> [] | Some fs \<Rightarrow> fs)"

definition storeFiles :: "StorageServer \<Rightarrow> node \<Rightarrow> request \<Rightarrow> response \<times> node" where
  "storeFiles s fs r =
     (if ParseErr r then (ErrorResponse 400 ''File too large or invalid form data'', fs)
      else
        let codebaseID = Form r ''codebase_id'' in
        if codebaseID = [] then (ErrorResponse 400 ''Codebase ID is required'', fs)
        else if \<not> uuid_Parse codebaseID then (ErrorResponse 400 ''Invalid codebase ID'', fs)
        else
          let files = formFiles r in
          if length files = 0 then (ErrorResponse 400 ''No files provided'', fs)
          else
            let storageDir = Join [baseStorageDir s, codebaseID] in
            (case MkdirAll fs storageDir of
               Inl e \<Rightarrow> (ErrorResponse 500 ''Failed to create storage directory'', fs)
             | Inr fs1 \<Rightarrow>
                 (case snd (storeLoop storageDir (Form r) files ([], 0, fs1)) of
                    (storedFiles, totalSize, fs2) \<Rightarrow>
                      if length storedFiles = 0 then
                        (ErrorResponse 400 ''No valid files were stored'', RemoveAll fs2 storageDir)
                      else
                        (StoreResponse True
                           (''Successfully stored '' @ showNat (length storedFiles) @ '' files ('' @
                            showInt totalSize @ '' bytes total)''),
                         fs2))))"

definition getFileContent :: "StorageServer \<Rightarrow> node \<Rightarrow> string \<Rightarrow> string \<Rightarrow> response" where
  "getFileContent s fs codebaseID filePath =
     (if \<not> uuid_Parse codebaseID then ErrorResponse 400 ''Invalid codebase ID''
      else if filePath = [] then ErrorResponse 400 ''File path is required''
      else
        let cleanPath = Clean filePath in
        if HasPrefix cleanPath ''..'' \<or> Contains cleanPath ''..'' then
          ErrorResponse 400 ''Invalid file path''
        else
          let baseDir = Join [baseStorageDir s, codebaseID];
              fullPath = Join [baseDir, cleanPath]
          in
          if \<not> HasPrefix fullPath baseDir then ErrorResponse 400 ''Invalid file path''
          else
            (case Stat fs fullPath of
               Inl e \<Rightarrow> if e = ENOENT then ErrorResponse 404 ''File not found'' else Panic
             | Inr fileInfo \<Rightarrow>
                 if IsDir fileInfo then ErrorResponse 400 ''Cannot read directory as file''
                 else
                   (case Open fs fullPath of
                      Inl e \<Rightarrow> ErrorResponse 500 ''Failed to read file''
                    | Inr content \<Rightarrow>
                        if isTextFile content then TextContent cleanPath (Size fileInfo) content
                        else
                          BinaryContent cleanPath (Size fileInfo)
                            (''/download/'' @ codebaseID @ ''?file='' @ filePath))))"

definition downloadFile :: "StorageServer \<Rightarrow> node \<Rightarrow> string \<Rightarrow> string \<Rightarrow> response" where
  "downloadFile s fs codebaseID filePath =
     (if \<not> uuid_Parse codebaseID then ErrorResponse 400 ''Invalid codebase ID''
      else if filePath = [] then ErrorResponse 400 ''File path is required''
      else
        let cleanPath = Clean filePath in
        if HasPrefix cleanPath ''..'' \<or> Contains cleanPath ''..'' then
          ErrorResponse 400 ''Invalid file path''
        else
          let baseDir = Join [baseStorageDir s, codebaseID];
              fullPath = Join [baseDir, cleanPath]
          in
          if \<not> HasPrefix fullPath baseDir then ErrorResponse 400 ''Invalid file path''
          else
            (case Stat fs fullPath of
               Inl e \<Rightarrow> if e = ENOENT then ErrorResponse 404 ''File not found'' else Panic
             | Inr fileInfo \<Rightarrow>
                 if IsDir fileInfo then ErrorResponse 400 ''Cannot download directory''
                 else
                   (case Open fs fullPath of
                      Inl e \<Rightarrow> ErrorResponse 500 ''Failed to open file''
                    | Inr content \<Rightarrow> FileResponse (Base cleanPath) (Size fileInfo) content)))"

text \<open>
  \<^verbatim>\<open>createZipArchive\<close>: the callback of the walk, for one visited entry, appends to the
  archive. The root (\<open>.\<close>) is skipped, a directory gives an entry whose name ends in a
  slash, a file an entry with its bytes. The result is the archive and the error of the
  walk, if any (the root that cannot be read).
\<close>

definition zipEntry :: "string list \<times> node \<Rightarrow> (string \<times> byte list) list" where
  "zipEntry e =
     (case e of (elems, d) \<Rightarrow>
        let relativePath = Rel elems in
        if relativePath = ''.'' then []
        else
          let relativePath' = ReplaceAll_backslash relativePath in
          (case d of
             DirNode es \<Rightarrow> [(relativePath' @ ''/'', [])]
           | FileNode b \<Rightarrow> [(relativePath', b)]))"

definition createZipArchive :: "node \<Rightarrow> string \<Rightarrow> (string \<times> byte list) list \<times> errno option" where
  "createZipArchive fs sourceDir =
     (case Stat fs sourceDir of
        Inl e \<Rightarrow> ([], Some e)
      | Inr rootInfo \<Rightarrow> (concat (map zipEntry (walkTree [] rootInfo)), None))"

definition downloadZip :: "StorageServer \<Rightarrow> node \<Rightarrow> string \<Rightarrow> response" where
  "downloadZip s fs codebaseID =
     (if \<not> uuid_Parse codebaseID then ErrorResponse 400 ''Invalid codebase ID''
      else
        let storageDir = Join [baseStorageDir s, codebaseID] in
        if Stat fs storageDir = Inl ENOENT then ErrorResponse 404 ''Codebase not found''
        else
          ZipResponse (''codebase-'' @ codebaseID @ ''.zip'') (fst (createZipArchive fs storageDir)))"


section \<open>The handlers of the second source file (src/unnamed/part_000)\<close>

text \<open>
  The file holds two programs, an earlier and a later one, with handlers of the same
  names; the suffix 1 marks the earlier (lines 1 to 118), the suffix 2 the later
  (lines 119 to 380). Neither validates the identifier of the route.
\<close>

definition StorageRoot :: string where
  "StorageRoot = ''./mock-zfs-storage''"



text \<open>
  The later \<^verbatim>\<open>UploadHandler\<close>: a file that fails is skipped. (After a successful
  \<^verbatim>\<open>ParseMultipartForm\<close> the form and its file map are not nil, so the branch
  "No files in request" is not taken.)
\<close>

definition uploadOne2 :: "string \<Rightarrow> nat \<times> node \<Rightarrow> upload \<Rightarrow> nat \<times> node" where
  "uploadOne2 basePath st header =
     (case st of (filesProcessed, fs) \<Rightarrow>
      if OpenErr header then st
      else
        let targetPath = Join [basePath, Filename header];
            targetDir = Dir targetPath
        in
        (case MkdirAll fs targetDir of
           Inl e \<Rightarrow> st
         | Inr fs1 \<Rightarrow>
             (case Create fs1 targetPath of
                Inl e \<Rightarrow> (filesProcessed, fs1)
              | Inr fs2 \<Rightarrow>
                  (case CopyErr header of
                     Some n \<Rightarrow>
                       (filesProcessed,
                        Remove (WriteFile fs2 targetPath (take n (Content header))) targetPath)
                   | None \<Rightarrow>
                       (filesProcessed + 1, WriteFile fs2 targetPath (Content header))))))"

definition UploadHandler2 :: "node \<Rightarrow> string \<Rightarrow> request \<Rightarrow> response \<times> node" where
  "UploadHandler2 fs uuid r =
     (let basePath = Join [StorageRoot, uuid] in
      case MkdirAll fs basePath of
        Inl e \<Rightarrow> (HttpError 500 ''Could not create storage directory'', fs)
      | Inr fs0 \<Rightarrow>
          if ParseErr r then (HttpError 400 ''Could not parse form'', fs0)
          else
            (case foldl (uploadOne2 basePath) (0, fs0) (concat (map snd (MultipartFile r))) of
               (filesProcessed, fs1) \<Rightarrow>
                 if filesProcessed = 0 then
                   (HttpError 500 ''No files were successfully processed'', fs1)
                 else
                   (PlainResponse 200
                      (''Upload successful: '' @ showNat filesProcessed @ '' files processed''),
                    fs1)))"

text \<open>
  The later \<^verbatim>\<open>DownloadZipHandler\<close>: the callback of \<^verbatim>\<open>filepath.Walk\<close> skips directories
  and writes one entry per file.
\<close>

definition zipFileEntry2 :: "string list \<times> node \<Rightarrow> (string \<times> byte list) list" where
  "zipFileEntry2 e =
     (case e of (elems, info) \<Rightarrow>
        (case info of
           DirNode es \<Rightarrow> []
         | FileNode b \<Rightarrow> [(ReplaceAll_backslash (Rel elems), b)]))"

definition DownloadZipHandler2 :: "node \<Rightarrow> string \<Rightarrow> response" where
  "DownloadZipHandler2 fs uuid =
     (let basePath = Join [StorageRoot, uuid] in
      if Stat fs basePath = Inl ENOENT then HttpError 404 ''Codebase not found''
      else
        ZipResponse (uuid @ ''.zip'')
          (case Stat fs basePath of
             Inl e \<Rightarrow> []
           | Inr rootInfo \<Rightarrow> concat (map zipFileEntry2 (walkTree [] rootInfo))))"

section \<open>Auxiliary notions for the statements\<close>

text \<open>
  A normal path element is a name: not empty, not \<open>.\<close>, not \<open>..\<close>, without a
  separator. \<open>stackOk rooted out\<close> is the invariant of the stack of \<open>cleanStep\<close> (top
  first): names above, and below them, in a relative path only, the \<open>..\<close> elements
  that lead out of the starting directory. \<open>plainElems\<close> drops the elements that
  \<open>cleanStep\<close> skips, and \<open>render\<close> writes a cleaned stack as a path, as the last lines
  of \<^verbatim>\<open>filepath.Clean\<close> do.
\<close>

definition normalElem :: "string \<Rightarrow> bool" where
  "normalElem e = (e \<noteq> [] \<and> e \<noteq> ''.'' \<and> e \<noteq> ''..'' \<and> CHR ''/'' \<notin> set e)"

fun stackOk :: "bool \<Rightarrow> string list \<Rightarrow> bool" where
  "stackOk r [] = True"
| "stackOk r (t # ts) =
     (if t = ''..'' then \<not> r \<and> (\<forall>x\<in>set ts. x = ''..'') else normalElem t \<and> stackOk r ts)"

definition plainElems :: "string list \<Rightarrow> string list" where
  "plainElems es = filter (\<lambda>e. e \<noteq> [] \<and> e \<noteq> ''.'') es"

definition render :: "bool \<Rightarrow> string list \<Rightarrow> string" where
  "render r es = (if r then CHR ''/'' # joinSlash es else if es = [] then ''.'' else joinSlash es)"

text \<open>
  \<open>endsNormal es\<close>: the last element of \<open>es\<close> that is not empty is a name. The elements
  of every identifier that \<open>uuid_Parse\<close> accepts are of this form.
\<close>

definition endsNormal :: "string list \<Rightarrow> bool" where
  "endsNormal es = (\<exists>pre e k. es = pre @ e # replicate k [] \<and> normalElem e)"

text \<open>
  \<open>readFile t k\<close> is what can be read at the location \<open>k\<close>: the bytes of a regular
  file, and \<open>None\<close> where there is a directory or nothing. It is the observation in
  which the statements about writes are made.
\<close>

definition readFile :: "node \<Rightarrow> string list \<Rightarrow> byte list option" where
  "readFile t k = (case stat t k of Inr (FileNode b) \<Rightarrow> Some b | _ \<Rightarrow> None)"

text \<open>
  The \<^verbatim>\<open>relativePath\<close> that the loop of \<^verbatim>\<open>storeFiles\<close> computes for a part (the path field
  of the form if it is not empty, else the base name, cleaned), and the location of the
  \<^verbatim>\<open>fullPath\<close> it writes to.
\<close>

definition uploadPath :: "(string \<Rightarrow> string) \<Rightarrow> upload \<Rightarrow> string" where
  "uploadPath form fileHeader =
     Clean (if form (''path_'' @ Filename fileHeader) = [] then Base (Filename fileHeader)
            else form (''path_'' @ Filename fileHeader))"

definition uploadKey :: "string \<Rightarrow> (string \<Rightarrow> string) \<Rightarrow> upload \<Rightarrow> string list" where
  "uploadKey storageDir form fileHeader = pathKey (Join [storageDir, uploadPath form fileHeader])"

text \<open>
  \<open>isDirAt t k\<close>: there is a directory at the location \<open>k\<close>. A location is
  \<open>writable\<close> when \<^verbatim>\<open>os.MkdirAll\<close> of its directory and \<^verbatim>\<open>os.Create\<close> of the file
  can both succeed: no directory is there, and no regular file is at a location above it
  (the locations \<open>take n k\<close> with \<open>n < length k\<close>).
\<close>

definition isDirAt :: "node \<Rightarrow> string list \<Rightarrow> bool" where
  "isDirAt t k = (case stat t k of Inr (DirNode es) \<Rightarrow> True | _ \<Rightarrow> False)"


text \<open>
  An upload is \<open>accepted\<close> when the loop of \<^verbatim>\<open>storeFiles\<close> gets as far as the file
  system with it: the part opens, its base name is a name, and its cleaned relative path
  does not begin with two dots. It is \<open>storable\<close> in a file system when moreover the
  copy of its bytes does not fail and its destination is writable. Both are conditions on
  the request and on the file system before the loop, not on what the loop does.
\<close>

definition accepted :: "(string \<Rightarrow> string) \<Rightarrow> upload \<Rightarrow> bool" where
  "accepted form fileHeader =
     (\<not> OpenErr fileHeader \<and>
      Base (Filename fileHeader) \<noteq> [] \<and> Base (Filename fileHeader) \<noteq> ''.'' \<and>
      Base (Filename fileHeader) \<noteq> ''..'' \<and>
      \<not> HasPrefix (uploadPath form fileHeader) ''..'')"


section \<open>Example data\<close>

text \<open>
  A valid identifier, a server with the default storage root, a part that the
  environment does not disturb, and a request to \<^verbatim>\<open>/store\<close> with its identifier, its path
  fields and its parts in the field \<^verbatim>\<open>files\<close>.
\<close>

definition exampleId :: string where
  "exampleId = ''6ba7b810-9dad-11d1-80b4-00c04fd430c8''"

definition exampleServer :: StorageServer where
  "exampleServer = \<lparr>baseStorageDir = ''./storage''\<rparr>"

definition plainUpload :: "string \<Rightarrow> byte list \<Rightarrow> upload" where
  "plainUpload name content = \<lparr>Filename = name, Content = content, OpenErr = False, CopyErr = None\<rparr>"

definition storeRequest :: "string \<Rightarrow> (string \<times> string) list \<Rightarrow> upload list \<Rightarrow> request" where
  "storeRequest cid pathFields files =
     \<lparr>ParseErr = False,
      Form = (\<lambda>k. if k = ''codebase_id'' then cid
                  else (case map_of pathFields k of None \<Rightarrow> [] | Some v \<Rightarrow> v)),
      MultipartFile = [(''files'', files)]\<rparr>"

section \<open>The run of the upload loop\<close>

text \<open>
  \<open>storeRun\<close> is the loop of \<^verbatim>\<open>storeFiles\<close> as the request reaches it: what is logged
  for each file, \<^verbatim>\<open>storedFiles\<close>, \<^verbatim>\<open>totalSize\<close> and the file system at the end of the
  loop; \<open>None\<close> when the request is answered before the loop. \<open>storedCount\<close> is the
  number of files the request stores.
\<close>

definition storeRun ::
  "StorageServer \<Rightarrow> node \<Rightarrow> request \<Rightarrow> (outcome list \<times> (string list \<times> int \<times> node)) option" where
  "storeRun s fs r =
     (if ParseErr r \<or> Form r ''codebase_id'' = [] \<or> \<not> uuid_Parse (Form r ''codebase_id'') \<or>
         formFiles r = []
      then None
      else
        (case MkdirAll fs (Join [baseStorageDir s, Form r ''codebase_id'']) of
           Inl e \<Rightarrow> None
         | Inr fs1 \<Rightarrow>
             Some (storeLoop (Join [baseStorageDir s, Form r ''codebase_id'']) (Form r) (formFiles r)
                     ([], 0, fs1))))"

definition storedCount :: "StorageServer \<Rightarrow> node \<Rightarrow> request \<Rightarrow> nat" where
  "storedCount s fs r =
     (case storeRun s fs r of None \<Rightarrow> 0 | Some (ocs, (storedFiles, totalSize, fs2)) \<Rightarrow> length storedFiles)"

section \<open>Example requests\<close>

definition threeUploads :: request where
  "threeUploads =
     storeRequest exampleId [(''path_bad'', ''../bad'')]
       [plainUpload ''a.txt'' [1], plainUpload ''bad'' [2, 2], plainUpload ''c.txt'' [3, 3, 3]]"

definition oneBadUpload :: request where
  "oneBadUpload = storeRequest exampleId [(''path_a'', ''../a'')] [plainUpload ''a'' [1]]"

definition earlierUpload :: request where
  "earlierUpload = storeRequest exampleId [] [plainUpload ''keep.txt'' [7, 7]]"






text \<open>
  The entries of a codebase directory that holds exactly the file \<^verbatim>\<open>x.txt\<close> and the file
  \<^verbatim>\<open>sub/y.bin\<close>, in either order of creation.
\<close>

definition twoFiles :: "byte list \<Rightarrow> byte list \<Rightarrow> (string \<times> node) list set" where
  "twoFiles cx cy =
     {[(''x.txt'', FileNode cx), (''sub'', DirNode [(''y.bin'', FileNode cy)])],
      [(''sub'', DirNode [(''y.bin'', FileNode cy)]), (''x.txt'', FileNode cx)]}"

definition twoFilesRequest :: request where
  "twoFilesRequest =
     storeRequest exampleId [(''path_y.bin'', ''sub/y.bin'')]
       [plainUpload ''x.txt'' [120], plainUpload ''y.bin'' [0, 255]]"

definition twoFilesUpload2 :: request where
  "twoFilesUpload2 =
     \<lparr>ParseErr = False, Form = (\<lambda>k. []),
      MultipartFile = [(''files'', [plainUpload ''x.txt'' [120], plainUpload ''sub/y.bin'' [0, 255]])]\<rparr>"


section \<open>Properties of the content classifier\<close>

lemma countLoop_take:
  "countLoop i bs (n, c) =
     (n + length (filter (\<lambda>b. b = 0) (take (8193 - i) bs)),
      c + length (filter isControl (take (8193 - i) bs)))"
proof (induction bs arbitrary: i n c)
  case Nil
  show ?case by simp
next
  case (Cons b bs)
  show ?case
  proof (cases "i > 8192")
    case True
    then show ?thesis by simp
  next
    case False
    then have t: "8193 - i = Suc (8193 - (i + 1))" by simp
    have ic: "(b < 32 \<and> b \<noteq> 9 \<and> b \<noteq> 10 \<and> b \<noteq> 13) = isControl b"
      by (simp add: isControl_def)
    show ?thesis using False
      unfolding countLoop.simps t take_Suc_Cons Cons.IH ic
      by simp
  qed
qed

lemma utf8_Valid_replicate_zero: "utf8_Valid (replicate n 0)"
  by (induction n) simp_all

lemma utf8_Valid_ascii: "\<forall>b\<in>set bs. b < 0x80 \<Longrightarrow> utf8_Valid bs"
  by (induction bs) simp_all

lemma filter_concat_replicate:
  "filter P (concat (replicate n xs)) = concat (replicate n (filter P xs))"
  by (induction n) simp_all

lemma length_concat_replicate: "length (concat (replicate n xs)) = n * length xs"
  by (induction n) simp_all

text \<open>
  Where the whole buffer lies inside the first 8192 bytes, the code and the
  specification's classifier agree.
\<close>

lemma isTextFile_eq_spec_small:
  "length content \<le> 8192 \<Longrightarrow> isTextFile content = spec_isTextFile content"
  by (auto simp add: isTextFile_def spec_isTextFile_def countLoop_take Let_def)

text \<open>
  C8. \<^verbatim>\<open>isTextFile\<close> is not the classifier of the specification: the loop counts the
  bytes at the indices 0 to 8192 (8193 bytes, one more than "the first 8KB" of its
  comment), and the two ratios divide by the length of the whole buffer, not by the
  size of the inspected window. A buffer of 1000000 zero bytes has 8193 counted zero
  bytes, a ratio of 0.8193 percent, and is classified as text by the code; every
  inspected byte of it is a zero byte, so the specification's classifier (and the
  code's own comment "more than 1% null bytes") says binary.
\<close>

theorem isTextFile_long_zero_buffer_is_text:
  "isTextFile (replicate 1000000 0) \<and> \<not> spec_isTextFile (replicate 1000000 0)"
  by (simp add: isTextFile_def spec_isTextFile_def countLoop_take
      utf8_Valid_replicate_zero isControl_def)

text \<open>
  C9, as stated, fails: the ratio tests are guarded by \<^verbatim>\<open>contentLen > 100\<close>, so a buffer
  of ten bytes, one of them a zero byte and nine the letter \<open>a\<close>, is classified as text.
\<close>

theorem isTextFile_short_null_buffer_is_text:
  "isTextFile (0 # replicate 9 0x61)"
  by (simp add: isTextFile_def utf8_Valid_ascii)

text \<open>
  C9, amended: a buffer of more than 100 and at most 8192 bytes in which at least one
  byte in ten is a zero byte is classified as binary.
\<close>

theorem isTextFile_null_tenth_is_binary:
  assumes "100 < length content" and "length content \<le> 8192"
    and "length content \<le> 10 * length (filter (\<lambda>b. b = 0) content)"
  shows "\<not> isTextFile content"
proof -
  have "length content < 100 * length (filter (\<lambda>b. b = 0) content)"
    using assms(1,3) by linarith
  then have "real (length content) < 100 * real (length (filter (\<lambda>b. b = 0) content))"
    by (metis of_nat_less_iff of_nat_mult of_nat_numeral)
  moreover have pos: "0 < real (length content)"
    using assms(1) by linarith
  ultimately have "real (length (filter (\<lambda>b. b = 0) content)) / real (length content) > 0.01"
    unfolding pos_less_divide_eq[OF pos] by simp
  moreover have "content \<noteq> []"
    using assms(1) by auto
  ultimately show ?thesis
    using assms(1,2) by (simp add: isTextFile_def countLoop_take)
qed

theorem isTextFile_null_tenth_is_binary_witness:
  "\<not> isTextFile (concat (replicate 11 (0 # replicate 9 0x61)))"
  using isTextFile_null_tenth_is_binary [of "concat (replicate 11 (0 # replicate 9 0x61))"]
  by (simp add: filter_concat_replicate length_concat_replicate)


section \<open>Lemmas on paths, the file system and identifiers\<close>

subsection \<open>Path elements and the normal form of a path\<close>

lemma splitSlash_ne [simp]: "splitSlash s \<noteq> []"
  by (induction s) (auto split: list.splits)

lemma splitSlash_append_slash:
  "splitSlash (a @ CHR ''/'' # b) = splitSlash a @ splitSlash b"
  by (induction a) (auto split: list.splits)

lemma splitSlash_noslash: "e \<in> set (splitSlash s) \<Longrightarrow> CHR ''/'' \<notin> set e"
  by (induction s arbitrary: e) (auto split: list.splits if_splits)

lemma splitSlash_single: "CHR ''/'' \<notin> set e \<Longrightarrow> splitSlash e = [e]"
  by (induction e) auto

lemma splitSlash_joinSlash:
  "es \<noteq> [] \<Longrightarrow> \<forall>e\<in>set es. CHR ''/'' \<notin> set e \<Longrightarrow> splitSlash (joinSlash es) = es"
proof (induction es rule: joinSlash.induct)
  case 1
  then show ?case by simp
next
  case (2 e)
  then show ?case by (simp add: splitSlash_single)
next
  case (3 e v va)
  then show ?case by (simp add: splitSlash_append_slash splitSlash_single)
qed

lemma joinSlash_append:
  "as \<noteq> [] \<Longrightarrow> bs \<noteq> [] \<Longrightarrow> joinSlash (as @ bs) = joinSlash as @ CHR ''/'' # joinSlash bs"
proof (induction as rule: joinSlash.induct)
  case 1
  then show ?case by simp
next
  case (2 e)
  then show ?case by (cases bs) auto
next
  case (3 e v va)
  then show ?case by simp
qed

lemma stackOk_all_dotdot: "\<not> r \<Longrightarrow> \<forall>x\<in>set ts. x = ''..'' \<Longrightarrow> stackOk r ts"
  by (induction ts) auto

lemma stackOk_step:
  "stackOk r out \<Longrightarrow> CHR ''/'' \<notin> set e \<Longrightarrow> stackOk r (cleanStep r out e)"
  by (cases out) (auto simp: cleanStep_def normalElem_def stackOk_all_dotdot split: if_splits)

lemma stackOk_foldl:
  "stackOk r out \<Longrightarrow> \<forall>e\<in>set es. CHR ''/'' \<notin> set e \<Longrightarrow> stackOk r (foldl (cleanStep r) out es)"
  by (induction es arbitrary: out) (auto simp: stackOk_step)

lemma stackOk_cleanElems: "stackOk (isRooted p) (rev (cleanElems p))"
  unfolding cleanElems_def rev_rev_ident
  by (rule stackOk_foldl) (auto dest: splitSlash_noslash)

lemma cleanStep_skip [simp]: "cleanStep r out [] = out" "cleanStep r out ''.'' = out"
  by (simp_all add: cleanStep_def)

lemma cleanStep_dotdot_bottom:
  "\<not> r \<Longrightarrow> \<forall>x\<in>set ts. x = ''..'' \<Longrightarrow> cleanStep r ts ''..'' = ''..'' # ts"
  by (cases ts) (simp_all add: cleanStep_def)

lemma cleanStep_normal: "normalElem t \<Longrightarrow> cleanStep r ts t = t # ts"
  by (simp add: cleanStep_def normalElem_def)

lemma foldl_rev_stack: "stackOk r out \<Longrightarrow> foldl (cleanStep r) [] (rev out) = out"
proof (induction out)
  case Nil
  then show ?case by simp
next
  case (Cons t ts)
  show ?case
  proof (cases "t = ''..''")
    case True
    with Cons.prems have nr: "\<not> r" and all: "\<forall>x\<in>set ts. x = ''..''" by auto
    then have "stackOk r ts" by (simp add: stackOk_all_dotdot)
    then have "foldl (cleanStep r) [] (rev ts) = ts" by (rule Cons.IH)
    then show ?thesis using True cleanStep_dotdot_bottom[OF nr all]
      by simp
  next
    case False
    with Cons.prems have "normalElem t" "stackOk r ts" by auto
    then show ?thesis using Cons.IH
      by (simp add: cleanStep_normal)
  qed
qed

lemma foldl_cleanStep_plain:
  "''..'' \<notin> set es \<Longrightarrow> foldl (cleanStep r) out es = rev (plainElems es) @ out"
  by (induction es arbitrary: out) (auto simp: cleanStep_def plainElems_def)

lemma Clean_render: "Clean p = render (isRooted p) (cleanElems p)"
  by (auto simp: Clean_def render_def cleanElems_def isRooted_def cleanStep_def)

lemma stackOk_rev_elems:
  assumes "stackOk r (rev es)"
  shows "\<forall>e\<in>set es. e \<noteq> [] \<and> e \<noteq> ''.'' \<and> CHR ''/'' \<notin> set e"
proof -
  have "stackOk r out \<Longrightarrow> \<forall>e\<in>set out. e \<noteq> [] \<and> e \<noteq> ''.'' \<and> CHR ''/'' \<notin> set e" for out
    by (induction out) (auto simp: normalElem_def split: if_splits)
  from this[OF assms] show ?thesis by simp
qed

lemma cleanElems_elems:
  "e \<in> set (cleanElems p) \<Longrightarrow> e \<noteq> [] \<and> e \<noteq> ''.'' \<and> CHR ''/'' \<notin> set e"
  using stackOk_rev_elems[OF stackOk_cleanElems] by blast

lemma hd_joinSlash: "es \<noteq> [] \<Longrightarrow> hd es \<noteq> [] \<Longrightarrow> hd (joinSlash es) = hd (hd es)"
  by (cases es rule: joinSlash.cases) auto

lemma joinSlash_ne: "es \<noteq> [] \<Longrightarrow> hd es \<noteq> [] \<Longrightarrow> joinSlash es \<noteq> []"
  by (cases es rule: joinSlash.cases) auto

lemma render_ne: "\<forall>e\<in>set es. e \<noteq> [] \<Longrightarrow> render r es \<noteq> []"
  by (cases es rule: joinSlash.cases) (auto simp: render_def)

lemma Clean_ne [simp]: "Clean p \<noteq> []"
  unfolding Clean_render by (rule render_ne) (use cleanElems_elems in blast)

lemma isRooted_render:
  assumes "\<forall>e\<in>set es. e \<noteq> [] \<and> CHR ''/'' \<notin> set e"
  shows "isRooted (render r es) = r"
proof (cases "r \<or> es = []")
  case True
  then show ?thesis by (auto simp: render_def isRooted_def)
next
  case False
  then have "es \<noteq> []" "\<not> r" by auto
  moreover have "hd es \<in> set es" using \<open>es \<noteq> []\<close> by simp
  then have "hd es \<noteq> []" "hd (hd es) \<noteq> CHR ''/''"
    using assms by (auto, metis hd_in_set)
  ultimately show ?thesis
    by (simp add: render_def isRooted_def hd_joinSlash joinSlash_ne)
qed

lemma splitSlash_render:
  assumes "\<forall>e\<in>set es. CHR ''/'' \<notin> set e"
  shows "splitSlash (render r es) =
    (if r then (if es = [] then [[], []] else [] # es) else if es = [] then [''.''] else es)"
  using assms by (auto simp: render_def splitSlash_joinSlash)

lemma cleanElems_render:
  assumes "stackOk r (rev es)"
  shows "rev (foldl (cleanStep r) [] (splitSlash (render r es))) = es"
proof -
  have el: "\<forall>e\<in>set es. e \<noteq> [] \<and> e \<noteq> ''.'' \<and> CHR ''/'' \<notin> set e"
    using stackOk_rev_elems[OF assms] .
  have id: "foldl (cleanStep r) [] es = rev es"
    using foldl_rev_stack[OF assms] by simp
  show ?thesis
    using el id by (cases r) (simp_all add: splitSlash_render)
qed

lemma isRooted_Clean [simp]: "isRooted (Clean p) = isRooted p"
  unfolding Clean_render
  by (rule isRooted_render) (use cleanElems_elems in blast)

lemma cleanElems_Clean [simp]: "cleanElems (Clean p) = cleanElems p"
proof -
  have "cleanElems (Clean p) = rev (foldl (cleanStep (isRooted p)) [] (splitSlash (Clean p)))"
    by (simp add: cleanElems_def)
  also have "\<dots> = cleanElems p"
    unfolding Clean_render by (rule cleanElems_render) (rule stackOk_cleanElems)
  finally show ?thesis .
qed

lemma pathKey_Clean [simp]: "pathKey (Clean p) = pathKey p"
  by (simp add: pathKey_def)

lemma Clean_Clean [simp]: "Clean (Clean p) = Clean p"
  by (simp add: Clean_render[of "Clean p"]) (simp add: Clean_render)

lemma stackOk_dotdot_last:
  "stackOk r out \<Longrightarrow> ''..'' \<in> set out \<Longrightarrow> last out = ''..'' \<and> \<not> r"
proof (induction out)
  case Nil
  then show ?case by simp
next
  case (Cons t ts)
  show ?case
  proof (cases "t = ''..''")
    case True
    with Cons.prems(1) have "\<not> r" and all: "\<forall>x\<in>set ts. x = ''..''" by simp_all
    moreover have "last (t # ts) = ''..''"
      using True all by (cases "ts = []") simp_all
    ultimately show ?thesis by simp
  next
    case False
    with Cons.prems have "stackOk r ts" "''..'' \<in> set ts" by auto
    from Cons.IH[OF this] show ?thesis using \<open>''..'' \<in> set ts\<close> by auto
  qed
qed

lemma cleanElems_dotdot_hd:
  assumes "''..'' \<in> set (cleanElems p)"
  shows "\<not> isRooted p \<and> cleanElems p \<noteq> [] \<and> hd (cleanElems p) = ''..''"
proof -
  have "''..'' \<in> set (rev (cleanElems p))" using assms by simp
  from stackOk_dotdot_last[OF stackOk_cleanElems this]
  have "last (rev (cleanElems p)) = ''..''" "\<not> isRooted p" by auto
  moreover have "cleanElems p \<noteq> []" using assms by auto
  ultimately show ?thesis by (simp add: last_rev)
qed

lemma prefix_joinSlash_hd: "es \<noteq> [] \<Longrightarrow> prefix (hd es) (joinSlash es)"
  by (cases es rule: joinSlash.cases) auto

lemma HasPrefix_dotdot:
  assumes "''..'' \<in> set (cleanElems p)"
  shows "HasPrefix (Clean p) ''..''"
proof -
  from cleanElems_dotdot_hd[OF assms]
  have nr: "\<not> isRooted p" and ne: "cleanElems p \<noteq> []" and hd: "hd (cleanElems p) = ''..''"
    by auto
  have "Clean p = joinSlash (cleanElems p)"
    unfolding Clean_render render_def using nr ne by simp
  moreover have "prefix ''..'' (joinSlash (cleanElems p))"
    using prefix_joinSlash_hd[OF ne] unfolding hd .
  ultimately show ?thesis
    unfolding HasPrefix_def by simp
qed

lemma splitSlash_Clean_plain:
  assumes "\<not> HasPrefix (Clean p) ''..''"
  shows "''..'' \<notin> set (splitSlash (Clean p))"
    and "plainElems (splitSlash (Clean p)) = cleanElems p"
proof -
  have nd: "''..'' \<notin> set (cleanElems p)" using assms HasPrefix_dotdot by blast
  have el: "\<forall>e\<in>set (cleanElems p). e \<noteq> [] \<and> e \<noteq> ''.'' \<and> CHR ''/'' \<notin> set e"
    using cleanElems_elems by blast
  then have ns: "\<forall>e\<in>set (cleanElems p). CHR ''/'' \<notin> set e" by blast
  have pl: "plainElems (cleanElems p) = cleanElems p"
    unfolding plainElems_def using el by (simp add: filter_id_conv)
  show "''..'' \<notin> set (splitSlash (Clean p))"
    using nd by (auto simp: Clean_render splitSlash_render[OF ns])
  show "plainElems (splitSlash (Clean p)) = cleanElems p"
    using pl by (auto simp: Clean_render splitSlash_render[OF ns] plainElems_def)
qed


lemma isRooted_append: "d \<noteq> [] \<Longrightarrow> isRooted (d @ x) = isRooted d"
  by (simp add: isRooted_def)

lemma cleanElems_Join:
  assumes "d \<noteq> []" and "\<not> HasPrefix (Clean p) ''..''"
  shows "cleanElems (Join [d, Clean p]) = cleanElems d @ cleanElems p"
proof -
  let ?x = "d @ CHR ''/'' # Clean p"
  have "cleanElems (Join [d, Clean p]) = cleanElems ?x"
    using assms(1) by simp
  also have "\<dots> = rev (foldl (cleanStep (isRooted d))
      (foldl (cleanStep (isRooted d)) [] (splitSlash d)) (splitSlash (Clean p)))"
    using assms(1) by (simp add: cleanElems_def isRooted_append splitSlash_append_slash)
  also have "\<dots> = rev (foldl (cleanStep (isRooted d)) [] (splitSlash d)) @ cleanElems p"
    using splitSlash_Clean_plain[OF assms(2)] by (simp add: foldl_cleanStep_plain)
  finally show ?thesis by (simp add: cleanElems_def)
qed

lemma isRooted_Join: "d \<noteq> [] \<Longrightarrow> isRooted (Join [d, r]) = isRooted d"
  by (simp add: isRooted_append)

lemma pathKey_Join:
  assumes "d \<noteq> []" and "\<not> HasPrefix (Clean p) ''..''"
  shows "pathKey (Join [d, Clean p]) = pathKey d @ cleanElems p"
  using cleanElems_Join[OF assms] isRooted_Join[OF assms(1)]
  by (simp add: pathKey_def)

lemma Join_ne: "r \<noteq> [] \<Longrightarrow> Join [d, r] \<noteq> []"
  by simp

lemma prefix_render:
  assumes "r \<or> as \<noteq> []"
  shows "prefix (render r as) (render r (as @ bs))"
proof (cases "bs = []")
  case True
  then show ?thesis by simp
next
  case False
  show ?thesis
  proof (cases "as = []")
    case True
    then show ?thesis using assms by (simp add: render_def)
  next
    case False
    then show ?thesis using \<open>bs \<noteq> []\<close>
      by (simp add: render_def joinSlash_append)
  qed
qed

lemma HasPrefix_Join:
  assumes "\<not> HasPrefix (Clean p) ''..''" and "pathKey (Clean d) \<noteq> []"
  shows "HasPrefix (Join [Clean d, Clean p]) (Clean d)"
proof -
  have ne: "Clean d \<noteq> []" by simp
  have ce: "cleanElems (Join [Clean d, Clean p]) = cleanElems d @ cleanElems p"
    using cleanElems_Join[OF ne assms(1)] by simp
  have ro: "isRooted (Join [Clean d, Clean p]) = isRooted d"
    using isRooted_Join[OF ne] by simp
  have "Join [Clean d, Clean p] = Clean (Join [Clean d, Clean p])"
    using ne by simp
  also have "\<dots> = render (isRooted d) (cleanElems d @ cleanElems p)"
    unfolding Clean_render[of "Join [Clean d, Clean p]"] ce ro ..
  finally have full: "Join [Clean d, Clean p] = render (isRooted d) (cleanElems d @ cleanElems p)" .
  have "isRooted d \<or> cleanElems d \<noteq> []"
    using assms(2) by (auto simp: pathKey_def)
  from prefix_render[OF this] show ?thesis
    unfolding HasPrefix_def full by (simp add: Clean_render[of d])
qed

subsection \<open>The operations of the file system\<close>

lemma stat_append:
  "stat t (k @ r) = (case stat t k of Inl e \<Rightarrow> Inl e | Inr n \<Rightarrow> stat n r)"
  by (induction t k rule: stat.induct) (auto split: option.splits)

lemma readFile_Dir_Nil [simp]: "readFile (DirNode es) [] = None"
  by (simp add: readFile_def)

lemma readFile_File_Cons [simp]: "readFile (FileNode b) (c # cs) = None"
  by (simp add: readFile_def)

lemma readFile_Dir_Cons:
  "readFile (DirNode es) (c # cs) = (case map_of es c of None \<Rightarrow> None | Some t \<Rightarrow> readFile t cs)"
  by (simp add: readFile_def split: option.splits)

lemma mkdirAll_is_dir: "mkdirAll t k = Inr t' \<Longrightarrow> \<exists>es. t' = DirNode es"
  by (induction t k arbitrary: t' rule: mkdirAll.induct) (auto split: sum.splits)

lemma readFile_mkdirAll:
  "mkdirAll t k = Inr t' \<Longrightarrow> readFile t' q = readFile t q"
proof (induction t k arbitrary: t' q rule: mkdirAll.induct)
  case (1 b k)
  then show ?case by simp
next
  case (2 es)
  then show ?case by simp
next
  case (3 es c cs)
  let ?old = "case map_of es c of None \<Rightarrow> DirNode [] | Some t \<Rightarrow> t"
  from "3.prems" obtain n where n: "mkdirAll ?old cs = Inr n" and t': "t' = DirNode (AList.update c n es)"
    by (auto split: sum.splits)
  show ?case
  proof (cases q)
    case Nil
    then show ?thesis using t' by simp
  next
    case (Cons c' qs)
    show ?thesis
    proof (cases "c' = c")
      case True
      have "readFile n qs = readFile ?old qs" using "3.IH"[OF n] .
      moreover have "readFile ?old qs = readFile (DirNode es) (c # qs)"
        by (cases qs) (auto simp: readFile_Dir_Cons split: option.splits)
      ultimately show ?thesis using t' Cons True
        by (simp add: readFile_Dir_Cons update_conv')
    next
      case False
      then show ?thesis using t' Cons
        by (simp add: readFile_Dir_Cons update_conv')
    qed
  qed
qed


lemma readFile_setAt_other:
  "\<not> prefix k q \<Longrightarrow> readFile (setAt t k v) q = readFile t q"
proof (induction t k v arbitrary: q rule: setAt.induct)
  case (1 t v)
  then show ?case by simp
next
  case (2 b c cs v)
  then show ?case by simp
next
  case (3 es c cs v)
  show ?case
  proof (cases q)
    case Nil
    then show ?thesis by (auto split: option.splits)
  next
    case (Cons c' qs)
    show ?thesis
    proof (cases "c' = c")
      case False
      then show ?thesis using Cons
        by (auto simp: readFile_Dir_Cons update_conv' delete_conv' split: option.splits)
    next
      case True
      with "3.prems" Cons have np: "\<not> prefix cs qs" by simp
      then have "cs \<noteq> []" by auto
      show ?thesis
      proof (cases "map_of es c")
        case None
        then show ?thesis using \<open>cs \<noteq> []\<close> by simp
      next
        case (Some t0)
        from "3.IH"[OF \<open>cs \<noteq> []\<close> Some np]
        show ?thesis using Some \<open>cs \<noteq> []\<close> Cons True
          by (simp add: readFile_Dir_Cons update_conv')
      qed
    qed
  qed
qed

lemma stat_setAt_at:
  "stat (setAt t k v) k =
     (if k = [] then Inr (case v of None \<Rightarrow> t | Some n \<Rightarrow> n)
      else
        (case stat t (butlast k) of
           Inr (DirNode es) \<Rightarrow> (case v of None \<Rightarrow> Inl ENOENT | Some n \<Rightarrow> Inr n)
         | Inr (FileNode b) \<Rightarrow> Inl ENOTDIR
         | Inl e \<Rightarrow> Inl e))"
proof (induction t k v rule: setAt.induct)
  case (1 t v)
  then show ?case by simp
next
  case (2 b c cs v)
  then show ?case by (cases cs) auto
next
  case (3 es c cs v)
  show ?case
  proof (cases "cs = []")
    case True
    then show ?thesis
      by (auto simp: update_conv' delete_conv' split: option.splits)
  next
    case False
    then show ?thesis using "3.IH"
      by (cases "map_of es c") (auto simp: update_conv')
  qed
qed

lemma stat_setAt_None_below:
  "k \<noteq> [] \<Longrightarrow> prefix k q \<Longrightarrow> \<exists>e. stat (setAt t k None) q = Inl e"
proof -
  assume k: "k \<noteq> []" and "prefix k q"
  then obtain r where q: "q = k @ r" by (auto simp: prefix_def)
  have "\<exists>e. stat (setAt t k None) k = Inl e"
    using k by (auto simp: stat_setAt_at split: sum.splits node.splits)
  then show ?thesis unfolding q stat_append by auto
qed

lemma stat_parent_dir:
  "stat t k = Inr n \<Longrightarrow> k \<noteq> [] \<Longrightarrow> \<exists>es. stat t (butlast k) = Inr (DirNode es)"
proof (induction t k rule: stat.induct)
  case (1 t)
  then show ?case by simp
next
  case (2 b c cs)
  then show ?case by simp
next
  case (3 es c cs)
  then show ?case by (cases "cs = []") (auto split: option.splits)
qed

lemma stat_below_nondir:
  "\<forall>es. stat t k \<noteq> Inr (DirNode es) \<Longrightarrow> \<exists>e. stat t (k @ c # rs) = Inl e"
proof (cases "stat t k")
  case (Inl e)
  then show ?thesis by (simp add: stat_append)
next
  case (Inr n)
  assume "\<forall>es. stat t k \<noteq> Inr (DirNode es)"
  with Inr obtain b where "n = FileNode b" by (cases n) auto
  then show ?thesis using Inr by (simp add: stat_append)
qed

lemma readFile_setAt_file:
  assumes "\<forall>es. stat t k \<noteq> Inr (DirNode es)" and "\<forall>es. v \<noteq> Some (DirNode es)" and "q \<noteq> k"
  shows "readFile (setAt t k v) q = readFile t q"
proof (cases "prefix k q")
  case False
  then show ?thesis by (rule readFile_setAt_other)
next
  case True
  then obtain r where q: "q = k @ r" and r: "r \<noteq> []"
    using assms(3) by (auto simp: prefix_def)
  obtain c rs where rc: "r = c # rs" using r by (cases r) auto
  have before: "readFile t q = None"
    using stat_below_nondir[OF assms(1), of c rs] unfolding readFile_def q rc
    by auto
  have nd: "\<forall>es. stat (setAt t k v) k \<noteq> Inr (DirNode es)"
  proof (cases "k = []")
    case True
    then show ?thesis using assms(1,2) by (auto split: option.splits)
  next
    case False
    then show ?thesis using assms(2)
      by (auto simp: stat_setAt_at split: sum.splits node.splits option.splits)
  qed
  have after: "readFile (setAt t k v) q = None"
    using stat_below_nondir[OF nd, of c rs] unfolding readFile_def q rc
    by auto
  show ?thesis using before after by simp
qed

lemma Create_ok:
  assumes "Create fs p = Inr fs'"
  shows "stat fs' (pathKey p) = Inr (FileNode [])"
    and "q \<noteq> pathKey p \<Longrightarrow> readFile fs' q = readFile fs q"
proof -
  let ?k = "pathKey p"
  have nd: "\<forall>es. stat fs ?k \<noteq> Inr (DirNode es)"
    using assms by (auto simp: Create_def Let_def)
  have fs': "fs' = setAt fs ?k (Some (FileNode []))"
    using assms by (auto simp: Create_def Let_def split: sum.splits node.splits if_splits)
  have par: "?k = [] \<or> (\<exists>es. stat fs (butlast ?k) = Inr (DirNode es))"
  proof (cases "stat fs ?k")
    case (Inr n)
    then show ?thesis using stat_parent_dir[OF Inr] by blast
  next
    case (Inl e)
    then show ?thesis using assms
      by (auto simp: Create_def Let_def IsDir_def split: sum.splits node.splits if_splits)
  qed
  show "stat fs' (pathKey p) = Inr (FileNode [])"
    unfolding fs' stat_setAt_at using par by auto
  show "q \<noteq> pathKey p \<Longrightarrow> readFile fs' q = readFile fs q"
    unfolding fs' using nd by (intro readFile_setAt_file) auto
qed

lemma WriteFile_ok:
  assumes "stat fs (pathKey p) = Inr (FileNode b0)"
  shows "stat (WriteFile fs p c) (pathKey p) = Inr (FileNode c)"
    and "q \<noteq> pathKey p \<Longrightarrow> readFile (WriteFile fs p c) q = readFile fs q"
proof -
  let ?k = "pathKey p"
  have par: "?k = [] \<or> (\<exists>es. stat fs (butlast ?k) = Inr (DirNode es))"
    using stat_parent_dir[OF assms] by blast
  show "stat (WriteFile fs p c) (pathKey p) = Inr (FileNode c)"
    unfolding WriteFile_def stat_setAt_at using par by auto
  show "q \<noteq> pathKey p \<Longrightarrow> readFile (WriteFile fs p c) q = readFile fs q"
    unfolding WriteFile_def using assms by (intro readFile_setAt_file) auto
qed

lemma Remove_file:
  assumes "stat fs (pathKey p) = Inr (FileNode b0)" and "q \<noteq> pathKey p"
  shows "readFile (Remove fs p) q = readFile fs q"
proof -
  have r: "Remove fs p = setAt fs (pathKey p) None"
    using assms(1) by (simp add: Remove_def Let_def)
  show ?thesis
    unfolding r using assms by (intro readFile_setAt_file) auto
qed

lemma RemoveAll_gone:
  "pathKey p \<noteq> [] \<Longrightarrow> prefix (pathKey p) q \<Longrightarrow> \<exists>e. stat (RemoveAll fs p) q = Inl e"
  by (simp add: RemoveAll_def stat_setAt_None_below)

lemma RemoveAll_other:
  "\<not> prefix (pathKey p) q \<Longrightarrow> readFile (RemoveAll fs p) q = readFile fs q"
  by (simp add: RemoveAll_def readFile_setAt_other)

lemma MkdirAll_readFile: "MkdirAll fs p = Inr fs' \<Longrightarrow> readFile fs' q = readFile fs q"
  unfolding MkdirAll_def by (rule readFile_mkdirAll)

subsection \<open>One step of the upload loop\<close>

lemma readFile_stat: "stat t k = Inr (FileNode b) \<Longrightarrow> readFile t k = Some b"
  by (simp add: readFile_def)

lemma storeOne_step:
  assumes "storeOne storageDir form (sf, ts, fs) f = (oc, (sf', ts', fs'))"
  shows "q \<noteq> uploadKey storageDir form f \<Longrightarrow> readFile fs' q = readFile fs q"
    and "oc = Stored \<Longrightarrow>
           readFile fs' (uploadKey storageDir form f) = Some (Content f) \<and>
           sf' = sf @ [uploadPath form f] \<and> ts' = ts + int (length (Content f)) \<and>
           \<not> HasPrefix (uploadPath form f) ''..''"
    and "oc \<noteq> Stored \<Longrightarrow> sf' = sf \<and> ts' = ts"
proof -
  let ?rel = "uploadPath form f"
  let ?full = "Join [storageDir, ?rel]"
  let ?k = "uploadKey storageDir form f"
  have k: "?k = pathKey ?full" by (simp add: uploadKey_def)
  consider
      (skip) "oc \<in> {OpenError, InvalidFilename, InvalidPath, MkdirError}" "sf' = sf" "ts' = ts" "fs' = fs"
    | (cfail) fs1 where "oc = CreateError" "sf' = sf" "ts' = ts" "fs' = fs1"
        "MkdirAll fs (Dir ?full) = Inr fs1"
    | (wfail) fs1 fs2 n where "oc = WriteError" "sf' = sf" "ts' = ts"
        "MkdirAll fs (Dir ?full) = Inr fs1" "Create fs1 ?full = Inr fs2"
        "fs' = Remove (WriteFile fs2 ?full (take n (Content f))) ?full"
    | (stored) fs1 fs2 where "oc = Stored" "sf' = sf @ [?rel]" "ts' = ts + int (length (Content f))"
        "MkdirAll fs (Dir ?full) = Inr fs1" "Create fs1 ?full = Inr fs2"
        "fs' = WriteFile fs2 ?full (Content f)" "\<not> HasPrefix ?rel ''..''"
    using assms unfolding storeOne_def uploadPath_def Let_def
    by (auto split: if_splits sum.splits option.splits)
  note cases = this
  show "q \<noteq> ?k \<Longrightarrow> readFile fs' q = readFile fs q"
  proof -
    assume q: "q \<noteq> ?k"
    from cases show ?thesis
    proof cases
      case skip
      then show ?thesis by simp
    next
      case (cfail fs1)
      then show ?thesis by (simp add: MkdirAll_readFile)
    next
      case (wfail fs1 fs2 n)
      have s2: "stat fs2 (pathKey ?full) = Inr (FileNode [])" using Create_ok(1)[OF wfail(5)] .
      have s3: "stat (WriteFile fs2 ?full (take n (Content f))) (pathKey ?full) = Inr (FileNode (take n (Content f)))"
        using WriteFile_ok(1)[OF s2] .
      have "readFile fs' q = readFile (WriteFile fs2 ?full (take n (Content f))) q"
        unfolding wfail(6) using Remove_file[OF s3] q k by simp
      also have "\<dots> = readFile fs2 q" using WriteFile_ok(2)[OF s2] q k by simp
      also have "\<dots> = readFile fs1 q" using Create_ok(2)[OF wfail(5)] q k by simp
      also have "\<dots> = readFile fs q" using MkdirAll_readFile[OF wfail(4)] .
      finally show ?thesis .
    next
      case (stored fs1 fs2)
      have s2: "stat fs2 (pathKey ?full) = Inr (FileNode [])" using Create_ok(1)[OF stored(5)] .
      have "readFile fs' q = readFile fs2 q"
        unfolding stored(6) using WriteFile_ok(2)[OF s2] q k by simp
      also have "\<dots> = readFile fs1 q" using Create_ok(2)[OF stored(5)] q k by simp
      also have "\<dots> = readFile fs q" using MkdirAll_readFile[OF stored(4)] .
      finally show ?thesis .
    qed
  qed
  show "oc = Stored \<Longrightarrow>
           readFile fs' ?k = Some (Content f) \<and>
           sf' = sf @ [?rel] \<and> ts' = ts + int (length (Content f)) \<and> \<not> HasPrefix ?rel ''..''"
  proof -
    assume oc: "oc = Stored"
    from cases show ?thesis
    proof cases
      case (stored fs1 fs2)
      have s2: "stat fs2 (pathKey ?full) = Inr (FileNode [])" using Create_ok(1)[OF stored(5)] .
      have "readFile fs' ?k = Some (Content f)"
        unfolding stored(6) k using WriteFile_ok(1)[OF s2] by (rule readFile_stat)
      then show ?thesis using stored by simp
    qed (use oc in auto)
  qed
  show "oc \<noteq> Stored \<Longrightarrow> sf' = sf \<and> ts' = ts"
    using cases by cases auto
qed

subsection \<open>The codebase directory of a valid identifier\<close>

lemma isHex_noslash: "isHexDigit c \<Longrightarrow> c \<noteq> CHR ''/''"
  by (auto simp: isHexDigit_def)

lemma upt_36: "[0..<36] = [0, 1, 2, 3, 4, 5, 6, 7, 8, 9, 10, 11, 12, 13, 14, 15, 16, 17, 18, 19, 20, 21, 22, 23, 24, 25, 26, 27, 28, 29, 30, 31, 32, 33, 34, 35]"
  by (simp add: upt_conv_Cons)

lemma upt_32: "[0..<32] = [0, 1, 2, 3, 4, 5, 6, 7, 8, 9, 10, 11, 12, 13, 14, 15, 16, 17, 18, 19, 20, 21, 22, 23, 24, 25, 26, 27, 28, 29, 30, 31]"
  by (simp add: upt_conv_Cons)

lemma upt_16: "[0..<16] = [0, 1, 2, 3, 4, 5, 6, 7, 8, 9, 10, 11, 12, 13, 14, 15]"
  by (simp add: upt_conv_Cons)

lemma uuidBody_noslash:
  assumes "uuidBody s" and "i < 36"
  shows "s ! i \<noteq> CHR ''/''"
proof -
  have "list_all (\<lambda>i. s ! i \<noteq> CHR ''/'') [0..<36]"
    using assms(1) unfolding uuidBody_def upt_36
    by (simp add: isHex_noslash)
  then show ?thesis using assms(2) by (simp add: list_all_iff)
qed

lemma hex32_noslash:
  assumes "list_all (\<lambda>i. isHexDigit (s ! (i * 2)) \<and> isHexDigit (s ! (i * 2 + 1))) [0..<16]" and "i < 32"
  shows "s ! i \<noteq> CHR ''/''"
proof -
  have "list_all (\<lambda>i. s ! i \<noteq> CHR ''/'') [0..<32]"
    using assms(1) unfolding upt_32 upt_16
    by (simp add: isHex_noslash)
  then show ?thesis using assms(2) by (simp add: list_all_iff)
qed

lemma toLower_slash: "toLowerASCII c \<in> set ''urn:uuid:'' \<Longrightarrow> c \<noteq> CHR ''/''"
  by (auto simp: toLowerASCII_def)

lemma noslash_take:
  assumes "\<And>i. i < n \<Longrightarrow> s ! i \<noteq> CHR ''/''" and "n \<le> length s"
  shows "CHR ''/'' \<notin> set (take n s)"
  using assms by (auto simp: in_set_conv_nth)

lemma normalElem_long: "CHR ''/'' \<notin> set e \<Longrightarrow> 3 \<le> length e \<Longrightarrow> normalElem e"
  by (auto simp: normalElem_def)

lemma foldl_cleanStep_replicate_empty: "foldl (cleanStep r) out (replicate k []) = out"
  by (induction k) simp_all

lemma endsNormal_foldl: "endsNormal es \<Longrightarrow> foldl (cleanStep r) out es \<noteq> []"
  by (auto simp: endsNormal_def cleanStep_normal foldl_cleanStep_replicate_empty)

lemma endsNormal_append: "endsNormal es \<Longrightarrow> endsNormal (xs @ es)"
  unfolding endsNormal_def by (metis append.assoc)

lemma endsNormal_single: "normalElem e \<Longrightarrow> endsNormal [e]"
  unfolding endsNormal_def by (rule exI[of _ "[]"], rule exI[of _ e], rule exI[of _ 0]) simp

lemma endsNormal_noslash:
  assumes "CHR ''/'' \<notin> set s" and "3 \<le> length s"
  shows "endsNormal (splitSlash s)"
  using assms by (simp add: splitSlash_single endsNormal_single normalElem_long)

lemma endsNormal_Cons: "endsNormal es \<Longrightarrow> endsNormal (x # es)"
  using endsNormal_append[of es "[x]"] by simp

lemma endsNormal_38:
  assumes "CHR ''/'' \<notin> set mid" and "3 \<le> length mid"
  shows "endsNormal (splitSlash (c1 # mid @ [c2]))"
proof -
  have tail: "splitSlash (mid @ [c2]) = (if c2 = CHR ''/'' then [mid, []] else [mid @ [c2]])"
    using assms(1) by (auto simp: splitSlash_append_slash splitSlash_single)
  have n1: "normalElem mid" "normalElem (mid @ [c2])" if "c2 \<noteq> CHR ''/''"
    using assms that by (auto intro: normalElem_long)
  have n0: "normalElem mid" using assms by (auto intro: normalElem_long)
  have e1: "endsNormal [mid, []]"
    unfolding endsNormal_def
    by (rule exI[of _ "[]"], rule exI[of _ mid], rule exI[of _ 1]) (simp add: n0)
  have e2: "endsNormal [c1 # mid, []]" if "c1 \<noteq> CHR ''/''"
    unfolding endsNormal_def
    by (rule exI[of _ "[]"], rule exI[of _ "c1 # mid"], rule exI[of _ 1])
      (use assms that in \<open>auto intro: normalElem_long\<close>)
  have e3: "endsNormal [c1 # mid @ [c2]]" if "c1 \<noteq> CHR ''/''" "c2 \<noteq> CHR ''/''"
    by (rule endsNormal_single) (use assms that in \<open>auto intro: normalElem_long\<close>)
  have e4: "endsNormal [mid @ [c2]]" if "c2 \<noteq> CHR ''/''"
    by (rule endsNormal_single) (use assms that in \<open>auto intro: normalElem_long\<close>)
  show ?thesis
  proof (cases "c1 = CHR ''/''")
    case True
    then show ?thesis using tail e1 e4 by (auto intro: endsNormal_Cons)
  next
    case False
    then show ?thesis using tail e2 e3 by auto
  qed
qed

lemma uuid_Parse_endsNormal:
  assumes "uuid_Parse cid"
  shows "endsNormal (splitSlash cid)"
proof -
  consider (a) "length cid = 36" "uuidBody cid"
    | (b) "length cid = 45" "map toLowerASCII (take 9 cid) = ''urn:uuid:''" "uuidBody (drop 9 cid)"
    | (c) "length cid = 38" "uuidBody (drop 1 cid)"
    | (d) "length cid = 32"
        "list_all (\<lambda>i. isHexDigit (cid ! (i * 2)) \<and> isHexDigit (cid ! (i * 2 + 1))) [0..<16]"
    using assms by (auto simp: uuid_Parse_def split: if_splits)
  then show ?thesis
  proof cases
    case a
    have "CHR ''/'' \<notin> set (take 36 cid)"
      by (rule noslash_take) (use a uuidBody_noslash in auto)
    then show ?thesis using a by (intro endsNormal_noslash) auto
  next
    case b
    have "CHR ''/'' \<notin> set (take 36 (drop 9 cid))"
    proof (rule noslash_take)
      show "drop 9 cid ! i \<noteq> CHR ''/''" if "i < 36" for i
        using uuidBody_noslash[OF b(3) that] .
      show "36 \<le> length (drop 9 cid)" using b(1) by simp
    qed
    then have 1: "CHR ''/'' \<notin> set (drop 9 cid)" using b by simp
    have "\<forall>c\<in>set (take 9 cid). toLowerASCII c \<in> set ''urn:uuid:''"
    proof
      fix c assume "c \<in> set (take 9 cid)"
      then have "toLowerASCII c \<in> set (map toLowerASCII (take 9 cid))" by simp
      then show "toLowerASCII c \<in> set ''urn:uuid:''" unfolding b(2) .
    qed
    then have 2: "CHR ''/'' \<notin> set (take 9 cid)" using toLower_slash by blast
    have "set cid = set (take 9 cid) \<union> set (drop 9 cid)"
      by (metis append_take_drop_id set_append)
    then have "CHR ''/'' \<notin> set cid" using 1 2 by simp
    then show ?thesis using b by (intro endsNormal_noslash) auto
  next
    case c
    let ?mid = "take 36 (drop 1 cid)"
    have ns: "CHR ''/'' \<notin> set ?mid"
    proof (rule noslash_take)
      show "drop 1 cid ! i \<noteq> CHR ''/''" if "i < 36" for i
        using uuidBody_noslash[OF c(2) that] .
      show "36 \<le> length (drop 1 cid)" using c(1) by simp
    qed
    have len: "length ?mid = 36" using c by simp
    obtain c1 rest where id1: "cid = c1 # rest" using c by (cases cid) auto
    then have lr: "length rest = 37" using c by simp
    then have "rest \<noteq> []" by auto
    then have rest: "rest = butlast rest @ [last rest]" by simp
    have "?mid = butlast rest" using id1 lr by (simp add: butlast_conv_take)
    then have "cid = c1 # ?mid @ [last rest]" using id1 rest by simp
    then show ?thesis using endsNormal_38[OF ns, of c1 "last rest"] len by simp
  next
    case d
    have "CHR ''/'' \<notin> set (take 32 cid)"
      by (rule noslash_take) (use d hex32_noslash in auto)
    then show ?thesis using d by (intro endsNormal_noslash) auto
  qed
qed

lemma uuid_Parse_ne: "uuid_Parse cid \<Longrightarrow> cid \<noteq> []"
  by (auto simp: uuid_Parse_def)

lemma cleanElems_Join_uuid:
  assumes "uuid_Parse cid"
  shows "cleanElems (Join [base, cid]) \<noteq> []"
proof -
  have en: "endsNormal (splitSlash cid)" using assms by (rule uuid_Parse_endsNormal)
  have ne: "cid \<noteq> []" using assms by (rule uuid_Parse_ne)
  show ?thesis
  proof (cases "base = []")
    case True
    then have "cleanElems (Join [base, cid]) = cleanElems cid" using ne by simp
    then show ?thesis using endsNormal_foldl[OF en] by (simp add: cleanElems_def)
  next
    case False
    then have "cleanElems (Join [base, cid]) = cleanElems (base @ CHR ''/'' # cid)" by simp
    moreover have "endsNormal (splitSlash (base @ CHR ''/'' # cid))"
      unfolding splitSlash_append_slash using en by (rule endsNormal_append)
    ultimately show ?thesis using endsNormal_foldl by (simp add: cleanElems_def)
  qed
qed

lemma pathKey_Join_uuid: "uuid_Parse cid \<Longrightarrow> pathKey (Join [base, cid]) \<noteq> []"
  using cleanElems_Join_uuid[of cid base] by (simp add: pathKey_def)

lemma Join_uuid_ne: "uuid_Parse cid \<Longrightarrow> Join [base, cid] \<noteq> []"
  using uuid_Parse_ne[of cid] by simp

lemma Join_Clean_id: "r \<noteq> [] \<Longrightarrow> Clean (Join [d, r]) = Join [d, r]"
  by simp

section \<open>Path traversal and containment\<close>

declare Join.simps [simp del]

lemma escapes_HasPrefix:
  assumes "take 1 (cleanElems p) = [''..'']"
  shows "HasPrefix (Clean p) ''..''"
proof -
  have "cleanElems p \<noteq> []" using assms by auto
  then have "hd (cleanElems p) = ''..''" using assms by (cases "cleanElems p") auto
  then have "''..'' \<in> set (cleanElems p)" using \<open>cleanElems p \<noteq> []\<close> by (metis hd_in_set)
  then show ?thesis by (rule HasPrefix_dotdot)
qed

lemma escapes_ne: "take 1 (cleanElems p) = [''..''] \<Longrightarrow> p \<noteq> []"
  by (auto simp: cleanElems_def isRooted_def)

lemma storeOne_escape:
  assumes "take 1 (cleanElems p) = [''..'']" and "form (''path_'' @ Filename f) = p"
  shows "snd (storeOne storageDir form st f) = st"
    and "fst (storeOne storageDir form st f) \<in> {OpenError, InvalidFilename, InvalidPath}"
proof -
  have hp: "HasPrefix (Clean p) ''..''" using assms(1) by (rule escapes_HasPrefix)
  have ne: "p \<noteq> []" using assms(1) by (rule escapes_ne)
  obtain sf ts fs where st: "st = (sf, ts, fs)" by (cases st) auto
  show "snd (storeOne storageDir form st f) = st"
    unfolding storeOne_def st using hp ne assms(2) by (simp add: Let_def)
  show "fst (storeOne storageDir form st f) \<in> {OpenError, InvalidFilename, InvalidPath}"
    unfolding storeOne_def st using hp ne assms(2) by (simp add: Let_def)
qed

lemma download_escape:
  assumes "take 1 (cleanElems p) = [''..'']" and "uuid_Parse cid"
  shows "downloadFile s fs cid p = ErrorResponse 400 ''Invalid file path''"
    and "getFileContent s fs cid p = ErrorResponse 400 ''Invalid file path''"
  using escapes_HasPrefix[OF assms(1)] escapes_ne[OF assms(1)] assms(2)
  by (simp_all add: downloadFile_def getFileContent_def Let_def)

lemma resolved_key:
  assumes "uuid_Parse cid" and "\<not> HasPrefix (Clean p) ''..''"
  shows "pathKey (Join [Join [base, cid], Clean p]) = pathKey (Join [base, cid]) @ cleanElems p"
  using pathKey_Join[OF Join_uuid_ne[OF assms(1)] assms(2)] .

lemma resolved_prefix:
  assumes "uuid_Parse cid" and "\<not> HasPrefix (Clean p) ''..''"
  shows "HasPrefix (Join [Join [base, cid], Clean p]) (Join [base, cid])"
proof -
  have c: "Clean (Join [base, cid]) = Join [base, cid]"
    using uuid_Parse_ne[OF assms(1)] by (rule Join_Clean_id)
  have "pathKey (Clean (Join [base, cid])) \<noteq> []"
    unfolding c using assms(1) by (rule pathKey_Join_uuid)
  from HasPrefix_Join[OF assms(2) this] show ?thesis unfolding c .
qed

lemma Stat_resolved:
  assumes "uuid_Parse cid" and "\<not> HasPrefix (Clean p) ''..''"
  shows "Stat fs (Join [Join [base, cid], Clean p]) =
    (case Stat fs (Join [base, cid]) of Inl e \<Rightarrow> Inl e | Inr n \<Rightarrow> stat n (cleanElems p))"
  unfolding Stat_def resolved_key[OF assms] stat_append ..

lemma Open_resolved:
  assumes "uuid_Parse cid" and "\<not> HasPrefix (Clean p) ''..''"
  shows "Open fs (Join [Join [base, cid], Clean p]) =
    (case (case Stat fs (Join [base, cid]) of Inl e \<Rightarrow> Inl e | Inr n \<Rightarrow> stat n (cleanElems p)) of
       Inl e \<Rightarrow> Inl e | Inr (DirNode es) \<Rightarrow> Inl EISDIR | Inr (FileNode b) \<Rightarrow> Inr b)"
  unfolding Open_def Stat_def resolved_key[OF assms] stat_append ..

lemma downloadFile_local:
  assumes "Stat fs1 (Join [baseStorageDir s, cid]) = Stat fs2 (Join [baseStorageDir s, cid])"
  shows "downloadFile s fs1 cid p = downloadFile s fs2 cid p"
proof (cases "uuid_Parse cid \<and> \<not> HasPrefix (Clean p) ''..''")
  case True
  then have S: "Stat fs1 (Join [Join [baseStorageDir s, cid], Clean p]) =
      Stat fs2 (Join [Join [baseStorageDir s, cid], Clean p])"
    and O: "Open fs1 (Join [Join [baseStorageDir s, cid], Clean p]) =
      Open fs2 (Join [Join [baseStorageDir s, cid], Clean p])"
    by (simp_all add: Stat_resolved Open_resolved assms)
  show ?thesis
    unfolding downloadFile_def Let_def S O ..
next
  case False
  then show ?thesis by (auto simp: downloadFile_def Let_def)
qed

lemma getFileContent_local:
  assumes "Stat fs1 (Join [baseStorageDir s, cid]) = Stat fs2 (Join [baseStorageDir s, cid])"
  shows "getFileContent s fs1 cid p = getFileContent s fs2 cid p"
proof (cases "uuid_Parse cid \<and> \<not> HasPrefix (Clean p) ''..''")
  case True
  then have S: "Stat fs1 (Join [Join [baseStorageDir s, cid], Clean p]) =
      Stat fs2 (Join [Join [baseStorageDir s, cid], Clean p])"
    and O: "Open fs1 (Join [Join [baseStorageDir s, cid], Clean p]) =
      Open fs2 (Join [Join [baseStorageDir s, cid], Clean p])"
    by (simp_all add: Stat_resolved Open_resolved assms)
  show ?thesis
    unfolding getFileContent_def Let_def S O ..
next
  case False
  then show ?thesis by (auto simp: getFileContent_def Let_def)
qed

lemma storeOne_changes:
  assumes "storeOne storageDir form (sf, ts, fs) f = (oc, (sf', ts', fs'))" and "fs' \<noteq> fs"
  shows "\<not> HasPrefix (uploadPath form f) ''..''"
  using assms unfolding storeOne_def uploadPath_def Let_def
  by (auto split: if_splits sum.splits option.splits)

lemma storeOne_frame:
  assumes "storeOne storageDir form (sf, ts, fs) f = (oc, (sf', ts', fs'))"
    and "storageDir \<noteq> []" and "\<not> prefix (pathKey storageDir) q"
  shows "readFile fs' q = readFile fs q"
proof (cases "fs' = fs")
  case True
  then show ?thesis by simp
next
  case False
  from storeOne_changes[OF assms(1) False]
  have np: "\<not> HasPrefix (Clean (uploadPath form f)) ''..''"
    by (simp add: uploadPath_def)
  have "uploadPath form f = Clean (uploadPath form f)" by (simp add: uploadPath_def)
  then have "uploadKey storageDir form f = pathKey (Join [storageDir, Clean (uploadPath form f)])"
    by (simp add: uploadKey_def)
  also have "\<dots> = pathKey storageDir @ cleanElems (uploadPath form f)"
    using pathKey_Join[OF assms(2) np] .
  finally have "prefix (pathKey storageDir) (uploadKey storageDir form f)" by simp
  then have "q \<noteq> uploadKey storageDir form f" using assms(3) by auto
  from storeOne_step(1)[OF assms(1) this] show ?thesis .
qed

lemma storeLoop_frame:
  assumes "storeLoop storageDir form files st = (ocs, st')"
    and "storageDir \<noteq> []" and "\<not> prefix (pathKey storageDir) q"
  shows "readFile (snd (snd st')) q = readFile (snd (snd st)) q"
  using assms(1)
proof (induction files arbitrary: st ocs st')
  case Nil
  then show ?case by simp
next
  case (Cons f files)
  obtain oc st1 where one: "storeOne storageDir form st f = (oc, st1)"
    by (cases "storeOne storageDir form st f") auto
  obtain ocs1 st2 where rest: "storeLoop storageDir form files st1 = (ocs1, st2)"
    by (cases "storeLoop storageDir form files st1") auto
  have st': "st' = st2" using Cons.prems one rest by simp
  obtain sf ts fs where st: "st = (sf, ts, fs)" by (cases st) auto
  obtain sf1 ts1 fs1 where st1: "st1 = (sf1, ts1, fs1)" by (cases st1) auto
  have "readFile fs1 q = readFile fs q"
    using storeOne_frame[OF one[unfolded st st1] assms(2,3)] .
  moreover have "readFile (snd (snd st2)) q = readFile (snd (snd st1)) q"
    using Cons.IH[OF rest] .
  ultimately show ?case using st st1 st' by simp
qed

lemma storeFiles_frame:
  assumes "\<not> prefix (pathKey (Join [baseStorageDir s, Form r ''codebase_id''])) q"
  shows "readFile (snd (storeFiles s fs r)) q = readFile fs q"
proof -
  let ?cid = "Form r ''codebase_id''"
  let ?sd = "Join [baseStorageDir s, ?cid]"
  show ?thesis
  proof (cases "ParseErr r \<or> ?cid = [] \<or> \<not> uuid_Parse ?cid \<or> formFiles r = []")
    case True
    then show ?thesis by (auto simp: storeFiles_def Let_def)
  next
    case False
    then have ok: "\<not> ParseErr r" "?cid \<noteq> []" "uuid_Parse ?cid" "formFiles r \<noteq> []" by auto
    have sd: "?sd \<noteq> []" using ok(3) by (rule Join_uuid_ne)
    show ?thesis
    proof (cases "MkdirAll fs ?sd")
      case (Inl e)
      then show ?thesis using ok by (simp add: storeFiles_def Let_def)
    next
      case (Inr fs1)
      obtain ocs sf ts fs2 where loop:
        "storeLoop ?sd (Form r) (formFiles r) ([], 0, fs1) = (ocs, (sf, ts, fs2))"
        by (metis prod_cases3 surj_pair)
      have 1: "readFile fs1 q = readFile fs q" using MkdirAll_readFile[OF Inr] .
      have 2: "readFile fs2 q = readFile fs1 q"
        using storeLoop_frame[OF loop sd assms] by simp
      have 3: "readFile (RemoveAll fs2 ?sd) q = readFile fs2 q"
        using assms by (rule RemoveAll_other)
      show ?thesis using ok Inr loop 1 2 3
        by (simp add: storeFiles_def Let_def)
    qed
  qed
qed

text \<open>
  C1, amended. A path whose normal form begins with a parent-directory element is
  rejected: the upload loop skips the file and leaves its state as it was, and both
  download handlers answer 400 "Invalid file path". No request writes a file outside
  the codebase directory (the bytes read at any location that does not lie below it are
  the same before and after \<^verbatim>\<open>storeFiles\<close>), and what the download handlers answer
  depends on the file system only through the codebase directory.
\<close>

theorem traversal_rejected:
  assumes "take 1 (cleanElems p) = [''..'']"
  shows "(form (''path_'' @ Filename f) = p \<longrightarrow>
            snd (storeOne storageDir form st f) = st \<and>
            fst (storeOne storageDir form st f) \<in> {OpenError, InvalidFilename, InvalidPath}) \<and>
         (uuid_Parse cid \<longrightarrow>
            downloadFile s fs cid p = ErrorResponse 400 ''Invalid file path'' \<and>
            getFileContent s fs cid p = ErrorResponse 400 ''Invalid file path'') \<and>
         (\<not> prefix (pathKey (Join [baseStorageDir s, Form r ''codebase_id''])) q \<longrightarrow>
            readFile (snd (storeFiles s fs r)) q = readFile fs q) \<and>
         (Stat fs (Join [baseStorageDir s, cid]) = Stat fs2 (Join [baseStorageDir s, cid]) \<longrightarrow>
            downloadFile s fs cid p' = downloadFile s fs2 cid p' \<and>
            getFileContent s fs cid p' = getFileContent s fs2 cid p')"
proof (intro conjI impI)
  assume "form (''path_'' @ Filename f) = p"
  then show "snd (storeOne storageDir form st f) = st"
    and "fst (storeOne storageDir form st f) \<in> {OpenError, InvalidFilename, InvalidPath}"
    using storeOne_escape[OF assms] by blast+
next
  assume "uuid_Parse cid"
  then show "downloadFile s fs cid p = ErrorResponse 400 ''Invalid file path''"
    and "getFileContent s fs cid p = ErrorResponse 400 ''Invalid file path''"
    using download_escape[OF assms] by blast+
next
  assume "\<not> prefix (pathKey (Join [baseStorageDir s, Form r ''codebase_id''])) q"
  then show "readFile (snd (storeFiles s fs r)) q = readFile fs q"
    by (rule storeFiles_frame)
next
  assume "Stat fs (Join [baseStorageDir s, cid]) = Stat fs2 (Join [baseStorageDir s, cid])"
  then show "downloadFile s fs cid p' = downloadFile s fs2 cid p'"
    and "getFileContent s fs cid p' = getFileContent s fs2 cid p'"
    by (rule downloadFile_local, rule getFileContent_local)
qed

theorem traversal_rejected_witness:
  "take 1 (cleanElems ''../../etc/passwd'') = [''..''] \<and>
   snd (storeOne ''storage/x'' (\<lambda>k. ''../../etc/passwd'') ([], 0, DirNode []) (plainUpload ''passwd'' [1]))
     = ([], 0, DirNode []) \<and>
   downloadFile exampleServer (DirNode [(''etc'', DirNode [(''passwd'', FileNode [1])])]) exampleId
     ''../../etc/passwd'' = ErrorResponse 400 ''Invalid file path'' \<and>
   getFileContent exampleServer (DirNode [(''etc'', DirNode [(''passwd'', FileNode [1])])]) exampleId
     ''../../etc/passwd'' = ErrorResponse 400 ''Invalid file path'' \<and>
   readFile (snd (storeFiles exampleServer (DirNode [(''etc'', DirNode [(''passwd'', FileNode [1])])])
       (storeRequest exampleId [(''path_passwd'', ''../../etc/passwd'')] [plainUpload ''passwd'' [2]])))
     [''etc'', ''passwd''] = Some [1]"
proof -
  have h: "take 1 (cleanElems ''../../etc/passwd'') = [''..'']" by code_simp
  have u: "uuid_Parse exampleId" by code_simp
  have np: "\<not> prefix (pathKey (Join [baseStorageDir exampleServer,
      Form (storeRequest exampleId [(''path_passwd'', ''../../etc/passwd'')] [plainUpload ''passwd'' [2]]) ''codebase_id'']))
      [''etc'', ''passwd'']" by code_simp
  have rf: "readFile (DirNode [(''etc'', DirNode [(''passwd'', FileNode [1])])]) [''etc'', ''passwd''] = Some [1]"
    by code_simp
  show ?thesis
    using h u np rf
      traversal_rejected [OF h, of "\<lambda>k. ''../../etc/passwd''" "plainUpload ''passwd'' [1]"
        "''storage/x''" "([], 0, DirNode [])" exampleId exampleServer
        "DirNode [(''etc'', DirNode [(''passwd'', FileNode [1])])]"
        "storeRequest exampleId [(''path_passwd'', ''../../etc/passwd'')] [plainUpload ''passwd'' [2]]"
        "[''etc'', ''passwd'']"]
    by simp
qed

text \<open>
  C1, as stated, fails: a path that contains a parent-directory element but whose
  normal form lies inside the codebase directory is accepted. The path \<^verbatim>\<open>a/../b\<close> is
  cleaned to \<^verbatim>\<open>b\<close>; the upload stores the file and the download returns it.
\<close>

theorem inner_parent_segment_accepted:
  "''..'' \<in> set (splitSlash ''a/../b'') \<and>
   storeFiles exampleServer (DirNode [])
     (storeRequest exampleId [(''path_b'', ''a/../b'')] [plainUpload ''b'' [104, 105]]) =
     (StoreResponse True ''Successfully stored 1 files (2 bytes total)'',
      DirNode [(''storage'', DirNode [(exampleId, DirNode [(''b'', FileNode [104, 105])])])]) \<and>
   downloadFile exampleServer
     (DirNode [(''storage'', DirNode [(exampleId, DirNode [(''b'', FileNode [104, 105])])])])
     exampleId ''a/../b'' = FileResponse ''b'' 2 [104, 105]"
  by code_simp

section \<open>Round trip\<close>


lemma stat_readFile: "readFile t k = Some b \<Longrightarrow> stat t k = Inr (FileNode b)"
  by (auto simp: readFile_def split: sum.splits node.splits)

lemma storeLoop_single:
  "storeLoop storageDir form [f] st = ([fst (storeOne storageDir form st f)], snd (storeOne storageDir form st f))"
  by (simp split: prod.splits)

lemma downloadFile_stored:
  assumes "uuid_Parse cid" and "p \<noteq> []" and "\<not> HasPrefix (Clean p) ''..''"
    and "\<not> Contains (Clean p) ''..''"
    and "readFile fs (pathKey (Join [Join [baseStorageDir s, cid], Clean p])) = Some b"
  shows "downloadFile s fs cid p = FileResponse (Base (Clean p)) (length b) b"
proof -
  let ?full = "Join [Join [baseStorageDir s, cid], Clean p]"
  have hp: "HasPrefix ?full (Join [baseStorageDir s, cid])"
    using resolved_prefix[OF assms(1,3)] .
  have st: "Stat fs ?full = Inr (FileNode b)"
    unfolding Stat_def using assms(5) by (rule stat_readFile)
  then have op: "Open fs ?full = Inr b"
    by (simp add: Open_def Stat_def)
  show ?thesis
    using assms(1-4) hp st op
    by (simp add: downloadFile_def Let_def IsDir_def Size_def)
qed

text \<open>
  A request that uploads a single file with the path field \<open>p\<close>: if it succeeds and
  the cleaned path does not contain two consecutive dots, the download of \<open>p\<close> returns
  the uploaded bytes.
\<close>

lemma single_upload_roundtrip:
  assumes "formFiles r = [f]"
    and "Form r (''path_'' @ Filename f) = p" and "p \<noteq> []"
    and "\<not> Contains (Clean p) ''..''"
    and "storeFiles s fs r = (StoreResponse True msg, fs')"
  shows "downloadFile s fs' (Form r ''codebase_id'') p =
           FileResponse (Base (Clean p)) (length (Content f)) (Content f)"
proof -
  let ?cid = "Form r ''codebase_id''"
  let ?sd = "Join [baseStorageDir s, ?cid]"
  have ok: "\<not> ParseErr r" "uuid_Parse ?cid"
    using assms(5) by (auto simp: storeFiles_def Let_def split: if_splits)
  obtain fs1 where mk: "MkdirAll fs ?sd = Inr fs1"
    using assms(5) ok assms(1)
    by (auto simp: storeFiles_def Let_def split: if_splits sum.splits)
  obtain oc sf ts fs2 where one: "storeOne ?sd (Form r) ([], 0, fs1) f = (oc, (sf, ts, fs2))"
    by (metis prod_cases3 surj_pair)
  have res: "sf \<noteq> []" "fs' = fs2"
    using assms(5) ok assms(1) mk one
    by (auto simp: storeFiles_def Let_def storeLoop_single split: if_splits)
  have "oc = Stored"
    using storeOne_step(3)[OF one] res(1) by auto
  from storeOne_step(2)[OF one this]
  have rf: "readFile fs2 (uploadKey ?sd (Form r) f) = Some (Content f)"
    and np: "\<not> HasPrefix (uploadPath (Form r) f) ''..''" by auto
  have up: "uploadPath (Form r) f = Clean p"
    using assms(2,3) by (simp add: uploadPath_def)
  have "readFile fs' (pathKey (Join [?sd, Clean p])) = Some (Content f)"
    using rf res(2) by (simp add: uploadKey_def up)
  moreover have "\<not> HasPrefix (Clean p) ''..''" using np up by simp
  ultimately show ?thesis
    using downloadFile_stored[OF ok(2) assms(3) _ assms(4)] by simp
qed

lemma single_upload_roundtrip_example:
  "downloadFile exampleServer
     (DirNode [(''storage'', DirNode [(exampleId,
        DirNode [(''a'', DirNode [(''b'', DirNode [(''c.txt'', FileNode [104, 105])])])])])])
     exampleId ''a/b/c.txt'' = FileResponse ''c.txt'' 2 [104, 105]"
proof -
  let ?r = "storeRequest exampleId [(''path_c.txt'', ''a/b/c.txt'')] [plainUpload ''c.txt'' [104, 105]]"
  let ?fs' = "DirNode [(''storage'', DirNode [(exampleId,
        DirNode [(''a'', DirNode [(''b'', DirNode [(''c.txt'', FileNode [104, 105])])])])])]"
  have 1: "formFiles ?r = [plainUpload ''c.txt'' [104, 105]]" by code_simp
  have 2: "Form ?r (''path_'' @ Filename (plainUpload ''c.txt'' [104, 105])) = ''a/b/c.txt''" by code_simp
  have 3: "''a/b/c.txt'' \<noteq> []" by simp
  have 4: "\<not> Contains (Clean ''a/b/c.txt'') ''..''" by code_simp
  have 5: "storeFiles exampleServer (DirNode []) ?r =
    (StoreResponse True ''Successfully stored 1 files (2 bytes total)'', ?fs')" by code_simp
  have 6: "Form ?r ''codebase_id'' = exampleId" by code_simp
  have 7: "Base (Clean ''a/b/c.txt'') = ''c.txt''" by code_simp
  have 8: "Content (plainUpload ''c.txt'' [104, 105]) = [104, 105]" by code_simp
  show ?thesis
    using single_upload_roundtrip [OF 1 2 3 4 5] unfolding 6 7 8 by simp
qed

section \<open>The containment check of the download handlers\<close>







text \<open>
  The test of the handlers compares strings: the path of a file in a directory beside
  the codebase directory whose name begins with the identifier begins with the path of
  the codebase directory, and would pass the test. No request resolves there, as the
  theorem above shows: to leave the codebase directory a cleaned path needs two dots.
\<close>

lemma prefix_test_passes_for_sibling:
  "HasPrefix (Join [baseStorageDir exampleServer, exampleId @ ''-evil'', ''x''])
     (Join [baseStorageDir exampleServer, exampleId])"
  by code_simp

section \<open>Identifier validation\<close>

text \<open>
  C4, amended. In the storage server (main.go) an identifier that \<^verbatim>\<open>uuid.Parse\<close> refuses
  is rejected by every handler with status 400 before the file system is touched: the
  answer is the same for every file system, and \<^verbatim>\<open>storeFiles\<close> returns the file system
  as it was.
\<close>

theorem invalid_identifier_rejected:
  assumes "\<not> uuid_Parse cid"
  shows "(Form r ''codebase_id'' = cid \<longrightarrow>
            storeFiles s fs r =
              (ErrorResponse 400
                 (if ParseErr r then ''File too large or invalid form data''
                  else if cid = [] then ''Codebase ID is required''
                  else ''Invalid codebase ID''), fs)) \<and>
         getFileContent s fs cid p = ErrorResponse 400 ''Invalid codebase ID'' \<and>
         downloadFile s fs cid p = ErrorResponse 400 ''Invalid codebase ID'' \<and>
         downloadZip s fs cid = ErrorResponse 400 ''Invalid codebase ID''"
  using assms
  by (simp add: storeFiles_def getFileContent_def downloadFile_def downloadZip_def Let_def)

theorem invalid_identifier_rejected_witness:
  "storeFiles exampleServer (DirNode [])
     (storeRequest ''not-a-uuid'' [] [plainUpload ''f'' [1]]) =
     (ErrorResponse 400 ''Invalid codebase ID'', DirNode []) \<and>
   getFileContent exampleServer (DirNode []) ''not-a-uuid'' ''f'' = ErrorResponse 400 ''Invalid codebase ID'' \<and>
   downloadFile exampleServer (DirNode []) ''not-a-uuid'' ''f'' = ErrorResponse 400 ''Invalid codebase ID'' \<and>
   downloadZip exampleServer (DirNode []) ''not-a-uuid'' = ErrorResponse 400 ''Invalid codebase ID''"
proof -
  have h: "\<not> uuid_Parse ''not-a-uuid''" by code_simp
  have f: "Form (storeRequest ''not-a-uuid'' [] [plainUpload ''f'' [1]]) ''codebase_id'' = ''not-a-uuid''"
    by code_simp
  have p: "\<not> ParseErr (storeRequest ''not-a-uuid'' [] [plainUpload ''f'' [1]])" by code_simp
  show ?thesis
    using invalid_identifier_rejected [OF h, of "storeRequest ''not-a-uuid'' [] [plainUpload ''f'' [1]]"
        exampleServer "DirNode []" "''f''"] f p
    by simp
qed

text \<open>
  C4, as stated, fails: the handlers of the second source file do not validate the
  identifier. The later \<^verbatim>\<open>UploadHandler\<close> creates the directory of an identifier that is
  not a UUID before it parses the request.
\<close>

theorem upload_handler_creates_directory_for_any_identifier:
  "\<not> uuid_Parse ''not-a-uuid'' \<and>
   UploadHandler2 (DirNode []) ''not-a-uuid''
     \<lparr>ParseErr = True, Form = (\<lambda>k. []), MultipartFile = []\<rparr> =
     (HttpError 400 ''Could not parse form'',
      DirNode [(''mock-zfs-storage'', DirNode [(''not-a-uuid'', DirNode [])])])"
  by code_simp

section \<open>Partial failure and rollback\<close>

lemma storeRun_Some:
  assumes "storeRun s fs r = Some x"
  shows "\<not> ParseErr r" and "Form r ''codebase_id'' \<noteq> []" and "uuid_Parse (Form r ''codebase_id'')"
    and "formFiles r \<noteq> []"
    and "\<exists>fs1. MkdirAll fs (Join [baseStorageDir s, Form r ''codebase_id'']) = Inr fs1 \<and>
           storeLoop (Join [baseStorageDir s, Form r ''codebase_id'']) (Form r) (formFiles r)
             ([], 0, fs1) = x"
proof -
  let ?c = "ParseErr r \<or> Form r ''codebase_id'' = [] \<or> \<not> uuid_Parse (Form r ''codebase_id'') \<or>
         formFiles r = []"
  have nc: "\<not> ?c"
  proof
    assume ?c
    then have "storeRun s fs r = None" unfolding storeRun_def by (rule if_P)
    then show False using assms by simp
  qed
  then show "\<not> ParseErr r" and "Form r ''codebase_id'' \<noteq> []" and "uuid_Parse (Form r ''codebase_id'')"
    and "formFiles r \<noteq> []" by blast+
  have "storeRun s fs r =
        (case MkdirAll fs (Join [baseStorageDir s, Form r ''codebase_id'']) of
           Inl e \<Rightarrow> None
         | Inr fs1 \<Rightarrow>
             Some (storeLoop (Join [baseStorageDir s, Form r ''codebase_id'']) (Form r) (formFiles r)
                     ([], 0, fs1)))"
    unfolding storeRun_def using nc by (rule if_not_P)
  then show "\<exists>fs1. MkdirAll fs (Join [baseStorageDir s, Form r ''codebase_id'']) = Inr fs1 \<and>
           storeLoop (Join [baseStorageDir s, Form r ''codebase_id'']) (Form r) (formFiles r)
             ([], 0, fs1) = x"
    using assms by (cases "MkdirAll fs (Join [baseStorageDir s, Form r ''codebase_id''])") auto
qed

lemma storeFiles_run:
  assumes "storeRun s fs r = Some (ocs, (sf, ts, fs2))"
  shows "storeFiles s fs r =
    (if sf = [] then
       (ErrorResponse 400 ''No valid files were stored'',
        RemoveAll fs2 (Join [baseStorageDir s, Form r ''codebase_id'']))
     else
       (StoreResponse True
          (''Successfully stored '' @ showNat (length sf) @ '' files ('' @ showInt ts @
           '' bytes total)''), fs2))"
proof -
  note c = storeRun_Some[OF assms]
  from c(5) obtain fs1 where mk: "MkdirAll fs (Join [baseStorageDir s, Form r ''codebase_id'']) = Inr fs1"
    and loop: "storeLoop (Join [baseStorageDir s, Form r ''codebase_id'']) (Form r) (formFiles r)
             ([], 0, fs1) = (ocs, (sf, ts, fs2))" by blast
  show ?thesis
    unfolding storeFiles_def Let_def using c(1-4) mk loop by simp
qed

lemma storeFiles_norun:
  assumes "storeRun s fs r = None"
  shows "snd (storeFiles s fs r) = fs" and "\<exists>code msg. fst (storeFiles s fs r) = ErrorResponse code msg"
proof -
  let ?sd = "Join [baseStorageDir s, Form r ''codebase_id'']"
  let ?c = "ParseErr r \<or> Form r ''codebase_id'' = [] \<or> \<not> uuid_Parse (Form r ''codebase_id'') \<or>
         formFiles r = []"
  have "snd (storeFiles s fs r) = fs \<and> (\<exists>code msg. fst (storeFiles s fs r) = ErrorResponse code msg)"
  proof (cases ?c)
    case True
    then show ?thesis unfolding storeFiles_def Let_def by auto
  next
    case False
    then have "MkdirAll fs ?sd \<noteq> Inr fs1" for fs1
      using assms unfolding storeRun_def by auto
    then obtain e where "MkdirAll fs ?sd = Inl e"
      by (cases "MkdirAll fs ?sd") auto
    then show ?thesis using False unfolding storeFiles_def Let_def by auto
  qed
  then show "snd (storeFiles s fs r) = fs"
    and "\<exists>code msg. fst (storeFiles s fs r) = ErrorResponse code msg" by blast+
qed

lemma storeRun_uuid: "storeRun s fs r = Some x \<Longrightarrow> uuid_Parse (Form r ''codebase_id'')"
  by (rule storeRun_Some(3))




subsection \<open>Directories and writable locations\<close>

lemma isDirAt_Nil [simp]: "isDirAt (DirNode es) [] = True" "isDirAt (FileNode b) k = False"
  by (cases k; simp add: isDirAt_def)+




lemma readFile_empty_dir [simp]: "readFile (DirNode []) q = None"
  by (cases q) (simp_all add: readFile_def)









subsection \<open>The directory of a path\<close>








subsection \<open>The destination of an accepted upload\<close>

lemma accepted_key:
  assumes "sd \<noteq> []" and "accepted form f"
  shows "uploadKey sd form f = pathKey sd @ cleanElems (uploadPath form f)"
proof -
  obtain x where x: "uploadPath form f = Clean x" by (simp add: uploadPath_def)
  have "\<not> HasPrefix (Clean x) ''..''" using assms(2) x by (simp add: accepted_def)
  from pathKey_Join[OF assms(1) this] show ?thesis
    by (simp add: uploadKey_def x)
qed



subsection \<open>One step of the upload loop, by the file system\<close>



















subsection \<open>The loop over files that can be stored\<close>







text \<open>
  The condition on the destinations is needed: a file stored at \<^verbatim>\<open>a/x\<close> makes the
  directory \<^verbatim>\<open>a\<close>, where a later file named \<^verbatim>\<open>a\<close> can then not be created, though
  each of the two could be stored alone.
\<close>

lemma conflicting_destinations:
  "storeRun exampleServer (DirNode [])
     (storeRequest exampleId [(''path_x'', ''a/x''), (''path_bad'', ''../bad'')]
        [plainUpload ''x'' [1], plainUpload ''bad'' [2], plainUpload ''a'' [3]]) =
     Some ([Stored, InvalidPath, CreateError], ([''a/x''], 1,
       DirNode [(''storage'', DirNode [(exampleId, DirNode [(''a'', DirNode [(''x'', FileNode [1])])])])]))"
  by code_simp

lemma storedCount_zero:
  assumes "storedCount s fs r = 0"
  shows "storeRun s fs r = None \<or> (\<exists>ocs ts fs2. storeRun s fs r = Some (ocs, ([], ts, fs2)))"
proof (cases "storeRun s fs r")
  case None
  then show ?thesis by simp
next
  case (Some x)
  obtain ocs sf ts fs2 where x: "x = (ocs, (sf, ts, fs2))" by (metis prod_cases3 surj_pair)
  then have "sf = []" using assms Some by (simp add: storedCount_def)
  then show ?thesis using Some x by simp
qed

lemma rollback_gone:
  assumes "storeRun s fs r = Some (ocs, ([], ts, fs2))"
    and "prefix (pathKey (Join [baseStorageDir s, Form r ''codebase_id''])) q"
  shows "\<exists>e. stat (snd (storeFiles s fs r)) q = Inl e"
proof -
  have ne: "pathKey (Join [baseStorageDir s, Form r ''codebase_id'']) \<noteq> []"
    using storeRun_uuid[OF assms(1)] by (rule pathKey_Join_uuid)
  show ?thesis
    using storeFiles_run[OF assms(1)] RemoveAll_gone[OF ne assms(2)] by simp
qed

text \<open>
  C6. When no file of an upload request is stored, the response is an error. If the
  request was answered before the loop (a form that cannot be parsed, a missing or
  invalid identifier, no files, a storage directory that cannot be created), the file
  system is returned as it was: the request has created nothing. If the loop ran and
  stored nothing, the codebase directory has been removed: nothing exists at or below
  it.
\<close>

theorem nothing_stored_reports_failure_and_rolls_back:
  assumes "storedCount s fs r = 0"
  shows "(\<exists>code msg. fst (storeFiles s fs r) = ErrorResponse code msg) \<and>
         (storeRun s fs r = None \<longrightarrow> snd (storeFiles s fs r) = fs) \<and>
         (storeRun s fs r \<noteq> None \<longrightarrow>
            fst (storeFiles s fs r) = ErrorResponse 400 ''No valid files were stored'' \<and>
            (\<forall>q. prefix (pathKey (Join [baseStorageDir s, Form r ''codebase_id''])) q \<longrightarrow>
               (\<exists>e. stat (snd (storeFiles s fs r)) q = Inl e)))"
proof -
  from storedCount_zero[OF assms] show ?thesis
  proof
    assume none: "storeRun s fs r = None"
    from storeFiles_norun[OF this] none show ?thesis by simp
  next
    assume "\<exists>ocs ts fs2. storeRun s fs r = Some (ocs, ([], ts, fs2))"
    then obtain ocs ts fs2 where run: "storeRun s fs r = Some (ocs, ([], ts, fs2))" by blast
    have "fst (storeFiles s fs r) = ErrorResponse 400 ''No valid files were stored''"
      using storeFiles_run[OF run] by simp
    then show ?thesis using rollback_gone[OF run] run by simp
  qed
qed

theorem nothing_stored_reports_failure_and_rolls_back_witness:
  "storeFiles exampleServer (DirNode []) oneBadUpload =
     (ErrorResponse 400 ''No valid files were stored'', DirNode [(''storage'', DirNode [])]) \<and>
   (\<exists>e. stat (snd (storeFiles exampleServer (DirNode []) oneBadUpload))
          (pathKey (Join [baseStorageDir exampleServer, Form oneBadUpload ''codebase_id''])) = Inl e)"
proof -
  have z: "storedCount exampleServer (DirNode []) oneBadUpload = 0" by code_simp
  have v: "storeFiles exampleServer (DirNode []) oneBadUpload =
     (ErrorResponse 400 ''No valid files were stored'', DirNode [(''storage'', DirNode [])])"
    by code_simp
  have run: "storeRun exampleServer (DirNode []) oneBadUpload \<noteq> None" by code_simp
  from nothing_stored_reports_failure_and_rolls_back [OF z] run
  have "\<forall>q. prefix (pathKey (Join [baseStorageDir exampleServer, Form oneBadUpload ''codebase_id''])) q \<longrightarrow>
             (\<exists>e. stat (snd (storeFiles exampleServer (DirNode []) oneBadUpload)) q = Inl e)"
    by blast
  then have "\<exists>e. stat (snd (storeFiles exampleServer (DirNode []) oneBadUpload))
          (pathKey (Join [baseStorageDir exampleServer, Form oneBadUpload ''codebase_id''])) = Inl e"
    by blast
  then show ?thesis using v by blast
qed

text \<open>
  C7. When a request reaches the loop of \<^verbatim>\<open>storeFiles\<close> and stores no file, the whole
  codebase directory is removed: afterwards no file can be read at or below it,
  whatever earlier uploads had stored there.
\<close>

theorem rollback_removes_earlier_uploads:
  assumes "storeRun s fs r = Some (ocs, ([], ts, fs2))"
    and "prefix (pathKey (Join [baseStorageDir s, Form r ''codebase_id''])) q"
  shows "readFile (snd (storeFiles s fs r)) q = None"
  using rollback_gone[OF assms] by (auto simp: readFile_def)

theorem rollback_removes_earlier_uploads_witness:
  "readFile (snd (storeFiles exampleServer (DirNode []) earlierUpload))
     [''storage'', exampleId, ''keep.txt''] = Some [7, 7] \<and>
   readFile (snd (storeFiles exampleServer (snd (storeFiles exampleServer (DirNode []) earlierUpload))
       oneBadUpload)) [''storage'', exampleId, ''keep.txt''] = None \<and>
   snd (storeFiles exampleServer (snd (storeFiles exampleServer (DirNode []) earlierUpload))
       oneBadUpload) = DirNode [(''storage'', DirNode [])]"
proof -
  let ?fs1 = "snd (storeFiles exampleServer (DirNode []) earlierUpload)"
  have a: "readFile ?fs1 [''storage'', exampleId, ''keep.txt''] = Some [7, 7]" by code_simp
  have run: "storeRun exampleServer ?fs1 oneBadUpload =
      Some ([InvalidPath], ([], 0,
        DirNode [(''storage'', DirNode [(exampleId, DirNode [(''keep.txt'', FileNode [7, 7])])])]))"
    by code_simp
  have pre: "prefix (pathKey (Join [baseStorageDir exampleServer, Form oneBadUpload ''codebase_id'']))
      [''storage'', exampleId, ''keep.txt'']" by code_simp
  have c: "snd (storeFiles exampleServer ?fs1 oneBadUpload) = DirNode [(''storage'', DirNode [])]"
    by code_simp
  show ?thesis
    using a c rollback_removes_earlier_uploads [OF run pre] by blast
qed

section \<open>Archive\<close>

lemma walk_twoFiles:
  assumes "es \<in> twoFiles cx cy"
  shows "walkTree [] (DirNode es) =
    [([], DirNode es), ([''sub''], DirNode [(''y.bin'', FileNode cy)]),
     ([''sub'', ''y.bin''], FileNode cy), ([''x.txt''], FileNode cx)]"
  using assms by (auto simp: twoFiles_def)

text \<open>
  C10, amended. For a codebase directory that holds exactly the file \<^verbatim>\<open>x.txt\<close> and the
  directory \<^verbatim>\<open>sub\<close> with the file \<^verbatim>\<open>y.bin\<close>, the archive of \<^verbatim>\<open>downloadZip\<close> (main.go)
  has three entries: the directory entry \<^verbatim>\<open>sub/\<close> and the two files \<^verbatim>\<open>sub/y.bin\<close> and
  \<^verbatim>\<open>x.txt\<close> with their stored bytes; the archive of the later \<^verbatim>\<open>DownloadZipHandler\<close> has
  exactly the two file entries. The names use forward slashes.
\<close>

theorem archive_of_two_files:
  assumes "es \<in> twoFiles cx cy"
  shows "(uuid_Parse cid \<longrightarrow> Stat fs (Join [baseStorageDir s, cid]) = Inr (DirNode es) \<longrightarrow>
            downloadZip s fs cid =
              ZipResponse (''codebase-'' @ cid @ ''.zip'')
                [(''sub/'', []), (''sub/y.bin'', cy), (''x.txt'', cx)]) \<and>
         (Stat fs (Join [StorageRoot, u]) = Inr (DirNode es) \<longrightarrow>
            DownloadZipHandler2 fs u =
              ZipResponse (u @ ''.zip'') [(''sub/y.bin'', cy), (''x.txt'', cx)])"
  using walk_twoFiles[OF assms]
  by (simp add: downloadZip_def createZipArchive_def DownloadZipHandler2_def zipEntry_def
      zipFileEntry2_def Rel_def ReplaceAll_backslash_def Let_def)

theorem archive_of_two_files_witness:
  "downloadZip exampleServer (snd (storeFiles exampleServer (DirNode []) twoFilesRequest)) exampleId =
     ZipResponse (''codebase-'' @ exampleId @ ''.zip'')
       [(''sub/'', []), (''sub/y.bin'', [0, 255]), (''x.txt'', [120])] \<and>
   DownloadZipHandler2 (snd (UploadHandler2 (DirNode []) exampleId twoFilesUpload2)) exampleId =
     ZipResponse (exampleId @ ''.zip'') [(''sub/y.bin'', [0, 255]), (''x.txt'', [120])]"
proof -
  let ?es = "[(''x.txt'', FileNode [120]), (''sub'', DirNode [(''y.bin'', FileNode [0, 255])])]"
  have m: "?es \<in> twoFiles [120] [0, 255]" by (simp add: twoFiles_def)
  have u: "uuid_Parse exampleId" by code_simp
  have s1: "Stat (snd (storeFiles exampleServer (DirNode []) twoFilesRequest))
      (Join [baseStorageDir exampleServer, exampleId]) = Inr (DirNode ?es)" by code_simp
  have s2: "Stat (snd (UploadHandler2 (DirNode []) exampleId twoFilesUpload2))
      (Join [StorageRoot, exampleId]) = Inr (DirNode ?es)" by code_simp
  show ?thesis
    using archive_of_two_files [OF m, of exampleId
        "snd (storeFiles exampleServer (DirNode []) twoFilesRequest)" exampleServer]
      archive_of_two_files [OF m, of _ "snd (UploadHandler2 (DirNode []) exampleId twoFilesUpload2)" _ exampleId]
      u s1 s2
    by blast
qed

text \<open>
  C10, as stated, fails for the archive of main.go: \<^verbatim>\<open>createZipArchive\<close> writes an entry
  for every directory it visits, so the archive of the two files has three entries.
\<close>

theorem archive_has_directory_entry:
  "(case downloadZip exampleServer (snd (storeFiles exampleServer (DirNode []) twoFilesRequest)) exampleId of
      ZipResponse filename entries \<Rightarrow> map fst entries
    | _ \<Rightarrow> []) = [''sub/'', ''sub/y.bin'', ''x.txt'']"
  by code_simp


section \<open>Round trip within a batch\<close>







text \<open>
  The condition on later files is needed: of two parts of one request with the same
  destination, the second overwrites the first, and the download returns its bytes.
\<close>

lemma later_file_overwrites:
  "storeFiles exampleServer (DirNode [])
     (storeRequest exampleId [] [plainUpload ''f'' [1], plainUpload ''f'' [2]]) =
     (StoreResponse True ''Successfully stored 2 files (2 bytes total)'',
      DirNode [(''storage'', DirNode [(exampleId, DirNode [(''f'', FileNode [2])])])]) \<and>
   downloadFile exampleServer
     (DirNode [(''storage'', DirNode [(exampleId, DirNode [(''f'', FileNode [2])])])])
     exampleId ''f'' = FileResponse ''f'' 1 [2]"
  by code_simp

end
